theory Spec2Isabelle
  imports Main "HOL-Library.AList" "HOL-Library.Sublist"
begin

section \<open>Strings and paths\<close>

text \<open>
  The script \<^verbatim>\<open>scripts/copy_image_model.py\<close> works on \<^verbatim>\<open>pathlib.Path\<close> values and on
  \<^verbatim>\<open>str\<close>. A \<^verbatim>\<open>str\<close> is modelled as a \<^typ>\<open>string\<close>, where a character stands for the
  code point of its number: the strings of the model are those over the code points
  \<^verbatim>\<open>U+0000\<close> to \<^verbatim>\<open>U+00FF\<close>, and names with other code points are outside the model.

  On these code points \<^verbatim>\<open>str.lower()\<close> replaces the 26 capital letters of ASCII and the 30
  capital letters of Latin-1 (\<^verbatim>\<open>U+00C0\<close> to \<^verbatim>\<open>U+00DE\<close> without the multiplication sign
  \<^verbatim>\<open>U+00D7\<close>) by their small letters and keeps every other character.
\<close>

definition ascii_uppercase :: string where
  "ascii_uppercase = ''ABCDEFGHIJKLMNOPQRSTUVWXYZ''"

definition ascii_lowercase :: string where
  "ascii_lowercase = ''abcdefghijklmnopqrstuvwxyz''"

definition latin1_uppercase :: string where
  "latin1_uppercase =
    [CHR 0xC0, CHR 0xC1, CHR 0xC2, CHR 0xC3, CHR 0xC4, CHR 0xC5, CHR 0xC6, CHR 0xC7,
      CHR 0xC8, CHR 0xC9, CHR 0xCA, CHR 0xCB, CHR 0xCC, CHR 0xCD, CHR 0xCE, CHR 0xCF,
      CHR 0xD0, CHR 0xD1, CHR 0xD2, CHR 0xD3, CHR 0xD4, CHR 0xD5, CHR 0xD6, CHR 0xD8,
      CHR 0xD9, CHR 0xDA, CHR 0xDB, CHR 0xDC, CHR 0xDD, CHR 0xDE]"

definition latin1_lowercase :: string where
  "latin1_lowercase =
    [CHR 0xE0, CHR 0xE1, CHR 0xE2, CHR 0xE3, CHR 0xE4, CHR 0xE5, CHR 0xE6, CHR 0xE7,
      CHR 0xE8, CHR 0xE9, CHR 0xEA, CHR 0xEB, CHR 0xEC, CHR 0xED, CHR 0xEE, CHR 0xEF,
      CHR 0xF0, CHR 0xF1, CHR 0xF2, CHR 0xF3, CHR 0xF4, CHR 0xF5, CHR 0xF6, CHR 0xF8,
      CHR 0xF9, CHR 0xFA, CHR 0xFB, CHR 0xFC, CHR 0xFD, CHR 0xFE]"

definition uppercase_letters :: string where
  "uppercase_letters = ascii_uppercase @ latin1_uppercase"

definition lowercase_letters :: string where
  "lowercase_letters = ascii_lowercase @ latin1_lowercase"

definition lower_char :: "char \<Rightarrow> char" where
  "lower_char c =
     (case map_of (zip uppercase_letters lowercase_letters) c of Some d \<Rightarrow> d | None \<Rightarrow> c)"

definition lower :: "string \<Rightarrow> string" where
  "lower s = map lower_char s"

text \<open>\<^verbatim>\<open>s.rfind(c)\<close>: the index of the last occurrence of \<open>c\<close>, or \<open>-1\<close>.\<close>

fun rfind :: "char \<Rightarrow> string \<Rightarrow> int" where
  "rfind c [] = - 1"
| "rfind c (x # xs) =
     (let r = rfind c xs in if 0 \<le> r then r + 1 else if x = c then 0 else - 1)"

text \<open>\<^verbatim>\<open>s.split(c)\<close>: the pieces of \<open>s\<close> between the occurrences of \<open>c\<close>.\<close>

fun split_sep :: "char \<Rightarrow> string \<Rightarrow> string list" where
  "split_sep c [] = [[]]"
| "split_sep c (x # xs) =
     (if x = c then [] # split_sep c xs
      else (x # hd (split_sep c xs)) # tl (split_sep c xs))"

text \<open>
  A path is the list of its components, as \<^verbatim>\<open>PurePosixPath.parts\<close> gives them: an
  absolute path starts with the component \<^verbatim>\<open>/\<close>. \<open>parse_path\<close> is \<^verbatim>\<open>Path(s)\<close> for a string:
  empty components and \<^verbatim>\<open>.\<close> are dropped. \<open>joinpath\<close> is the operator \<^verbatim>\<open>/\<close>; \<open>path_name\<close>,
  \<open>path_suffix\<close>, \<open>path_stem\<close> and \<open>path_parent\<close> are the properties \<^verbatim>\<open>name\<close>,
  \<^verbatim>\<open>suffix\<close>, \<^verbatim>\<open>stem\<close> and \<^verbatim>\<open>parent\<close> of pathlib (CPython 3.8 to 3.13: a suffix starts at
  the last dot of the name, unless that dot is the first or the last character).
\<close>

type_synonym path = "string list"

definition is_absolute :: "path \<Rightarrow> bool" where
  "is_absolute p = (case p of [] \<Rightarrow> False | x # _ \<Rightarrow> x = ''/'')"

definition parse_path :: "string \<Rightarrow> path" where
  "parse_path s =
     (let comps = filter (\<lambda>c. c \<noteq> [] \<and> c \<noteq> ''.'') (split_sep (CHR ''/'') s)
      in if s \<noteq> [] \<and> hd s = CHR ''/'' then ''/'' # comps else comps)"

definition joinpath :: "path \<Rightarrow> path \<Rightarrow> path" where
  "joinpath a b = (if is_absolute b then b else a @ b)"

definition path_name :: "path \<Rightarrow> string" where
  "path_name p = (if length p = (if is_absolute p then 1 else 0) then [] else last p)"

definition path_parent :: "path \<Rightarrow> path" where
  "path_parent p = (if length p = (if is_absolute p then 1 else 0) then p else butlast p)"

definition name_suffix :: "string \<Rightarrow> string" where
  "name_suffix name =
     (let i = rfind (CHR ''.'') name
      in if 0 < i \<and> i < int (length name) - 1 then drop (nat i) name else [])"

definition name_stem :: "string \<Rightarrow> string" where
  "name_stem name =
     (let i = rfind (CHR ''.'') name
      in if 0 < i \<and> i < int (length name) - 1 then take (nat i) name else name)"

definition path_suffix :: "path \<Rightarrow> string" where
  "path_suffix p = name_suffix (path_name p)"

definition path_stem :: "path \<Rightarrow> string" where
  "path_stem p = name_stem (path_name p)"

section \<open>Name normalizer\<close>

text \<open>
  \<^verbatim>\<open>normalize_basename\<close> (lines 70 to 93): \<^verbatim>\<open>name[0]\<close> and \<^verbatim>\<open>name[1:]\<close> are read only
  after the length check, where they are \<open>hd\<close> and \<open>tl\<close>.
\<close>

definition normalize_basename :: "path \<Rightarrow> string" where
  "normalize_basename src =
     (let name = lower (path_stem src) in
      if length name < 2 then lower (path_name src)
      else
        let suit = hd name; rank = tl name in
        if suit \<notin> {CHR ''c'', CHR ''d'', CHR ''h'', CHR ''s''} then lower (path_name src)
        else
          let rank_out =
            (if rank = ''1'' then ''a''
             else if rank \<in> {''t'', ''10''} then ''10''
             else rank)
          in [suit] @ rank_out @ lower (path_suffix src))"

text \<open>
  The algorithm of the specification (section 4.2), written from its words on the file name
  and not from the code. Lowercasing is written on the code points: a capital letter (65 to
  90, 192 to 214 and 216 to 222) becomes the character 32 code points later. The extension
  of a file name is its last dot with what follows it, when something follows that dot and
  something other than the dot stands before it; the stem is the name without the extension.
  Then come the five steps.
\<close>

definition spec_lower_char :: "char \<Rightarrow> char" where
  "spec_lower_char c =
     (let n = of_char c :: nat in
      if 65 \<le> n \<and> n \<le> 90 \<or> 192 \<le> n \<and> n \<le> 214 \<or> 216 \<le> n \<and> n \<le> 222
      then char_of (n + 32) else c)"

definition spec_lower :: "string \<Rightarrow> string" where
  "spec_lower s = map spec_lower_char s"

definition spec_ext :: "string \<Rightarrow> string" where
  "spec_ext filename =
     (let after = rev (takeWhile (\<lambda>c. c \<noteq> CHR ''.'') (rev filename)) in
      if after \<noteq> [] \<and> length after + 1 < length filename then CHR ''.'' # after else [])"

definition spec_stem :: "string \<Rightarrow> string" where
  "spec_stem filename = take (length filename - length (spec_ext filename)) filename"

definition spec_rank :: "string \<Rightarrow> string" where
  "spec_rank r = (if r = ''1'' then ''a'' else if r = ''t'' \<or> r = ''10'' then ''10'' else r)"

definition spec_normalize :: "string \<Rightarrow> string" where
  "spec_normalize filename =
     (case spec_lower (spec_stem filename) of
        [] \<Rightarrow> spec_lower filename
      | [c] \<Rightarrow> spec_lower filename
      | suit # r # rs \<Rightarrow>
          if suit = CHR ''c'' \<or> suit = CHR ''d'' \<or> suit = CHR ''h'' \<or> suit = CHR ''s''
          then suit # spec_rank (r # rs) @ spec_lower (spec_ext filename)
          else spec_lower filename)"

text \<open>
  Auxiliary notions for the proofs: the four suit letters, and the strings that are a single
  path component (or empty): no separator, and not the component \<^verbatim>\<open>.\<close> that pathlib drops.
\<close>

definition plain_name :: "string \<Rightarrow> bool" where
  "plain_name n = (n \<noteq> ''.'' \<and> CHR ''/'' \<notin> set n)"

definition is_suit :: "char \<Rightarrow> bool" where
  "is_suit c = (c = CHR ''c'' \<or> c = CHR ''d'' \<or> c = CHR ''h'' \<or> c = CHR ''s'')"

section \<open>Plan builder\<close>

text \<open>
  \<^verbatim>\<open>CopyPlan\<close> (lines 49 to 53) and \<^verbatim>\<open>build_copy_plans\<close> (lines 111 to 119). The two
  \<^verbatim>\<open>for\<close> loops append to \<^verbatim>\<open>plans\<close>; each is a recursion over the list it iterates, with
  the list of plans built so far as accumulator. \<^verbatim>\<open>images_dest / dest_name\<close> joins the root
  with the path parsed from the string \<^verbatim>\<open>dest_name\<close>.
\<close>

record CopyPlan =
  src :: path
  dest :: path
  kind :: string

fun image_plans_loop :: "path \<Rightarrow> CopyPlan list \<Rightarrow> path list \<Rightarrow> CopyPlan list" where
  "image_plans_loop images_dest plans [] = plans"
| "image_plans_loop images_dest plans (p # ps) =
     (let dest_name = normalize_basename p
      in image_plans_loop images_dest
           (plans @ [\<lparr>src = p, dest = joinpath images_dest (parse_path dest_name),
                      kind = ''image''\<rparr>]) ps)"

fun model_plans_loop :: "path \<Rightarrow> CopyPlan list \<Rightarrow> path list \<Rightarrow> CopyPlan list" where
  "model_plans_loop models_dest plans [] = plans"
| "model_plans_loop models_dest plans (p # ps) =
     (let dest_name = normalize_basename p
      in model_plans_loop models_dest
           (plans @ [\<lparr>src = p, dest = joinpath models_dest (parse_path dest_name),
                      kind = ''model''\<rparr>]) ps)"

definition build_copy_plans ::
  "path list \<Rightarrow> path list \<Rightarrow> path \<Rightarrow> path \<Rightarrow> CopyPlan list" where
  "build_copy_plans images models images_dest models_dest =
     model_plans_loop models_dest (image_plans_loop images_dest [] images) models"




section \<open>File system, exceptions and the library calls\<close>

text \<open>
  The functions of the script that touch the file system are modelled by explicit state
  passing over a \<open>world\<close>. The field \<open>fs\<close> is the file system: an association list from
  paths to nodes, in the order in which a directory lists its entries (a new entry is
  listed last). A node is a regular file, which carries its bytes (\<^verbatim>\<open>st_size\<close> is their
  number), a directory, or a named pipe, which stands for the files that are neither
  regular files nor directories. The roots \<open>[]\<close> (the working directory of a relative path)
  and \<^verbatim>\<open>/\<close> are directories of every world. A file is identified by its path: links,
  \<^verbatim>\<open>..\<close>, case-insensitive file systems and the two spellings (relative, absolute) of one
  file are outside the model, and so are modification times and permissions.

  The field \<open>faults\<close> holds the I/O failures of the environment that do not follow from the
  shape of the file system (permissions, a full disk, a file that vanishes between two
  calls): when a library call on a path is listed there, the call raises \<^verbatim>\<open>OSError\<close> with
  the listed message. An exception is a value: a function that may raise returns a sum, with
  \<open>Inl\<close> for the exception, as \<open>OSError\<close> (and its subclasses) or as any other subclass
  of \<^verbatim>\<open>Exception\<close>; \<open>exn_str\<close> is \<^verbatim>\<open>str(e)\<close>, of which the model keeps the message.

  A path with the character \<^verbatim>\<open>NUL\<close> in a component cannot be passed to the operating
  system: \<^verbatim>\<open>os.stat\<close>, \<^verbatim>\<open>os.mkdir\<close>, \<^verbatim>\<open>os.listdir\<close> and \<^verbatim>\<open>open\<close> raise \<^verbatim>\<open>ValueError\<close>
  (\<^verbatim>\<open>embedded null byte\<close>) for it before any system call; this exception is no
  \<^verbatim>\<open>OSError\<close>. \<open>encodable\<close> holds for the other paths.
\<close>

datatype node = File string | Dir | Fifo

datatype syscall =
  SysExists | SysIsFile | SysIsDir | SysStat | SysMkdir | SysCopy | SysListdir

datatype exn = OSError string | OtherException string

fun exn_str :: "exn \<Rightarrow> string" where
  "exn_str (OSError m) = m"
| "exn_str (OtherException m) = m"

record world =
  fs :: "(path \<times> node) list"
  faults :: "((syscall \<times> path) \<times> string) list"

definition node_at :: "world \<Rightarrow> path \<Rightarrow> node option" where
  "node_at w p = (if p = [] \<or> p = [''/''] then Some Dir else map_of (fs w) p)"

definition fault_at :: "world \<Rightarrow> syscall \<Rightarrow> path \<Rightarrow> string option" where
  "fault_at w c p = map_of (faults w) (c, p)"

definition dir_st_size :: nat where
  "dir_st_size = 4096"

definition encodable :: "path \<Rightarrow> bool" where
  "encodable p = (CHR 0x00 \<notin> set (concat p))"

text \<open>
  \<open>is_dir\<close> tells whether the file system holds a directory at a path; it is
  \<^verbatim>\<open>os.path.isdir\<close>, which answers \<^verbatim>\<open>False\<close> where \<^verbatim>\<open>os.stat\<close> fails and never raises.
\<close>

definition is_dir :: "world \<Rightarrow> path \<Rightarrow> bool" where
  "is_dir w p = (case node_at w p of Some Dir \<Rightarrow> True | _ \<Rightarrow> False)"

text \<open>
  \<^verbatim>\<open>Path.exists()\<close>, \<^verbatim>\<open>Path.is_file()\<close> and \<^verbatim>\<open>Path.is_dir()\<close> call \<^verbatim>\<open>stat\<close>. They
  answer \<^verbatim>\<open>False\<close> for a path that is not there and for a path that cannot be encoded
  (the \<^verbatim>\<open>ValueError\<close> is caught), and they raise every other \<^verbatim>\<open>OSError\<close> of \<^verbatim>\<open>stat\<close>
  again, such as the \<^verbatim>\<open>PermissionError\<close> for an entry of a directory that may be listed
  but not searched: these are the faults of the three calls.
\<close>

definition path_exists :: "world \<Rightarrow> path \<Rightarrow> exn + bool" where
  "path_exists w p =
     (if \<not> encodable p then Inr False
      else
        case fault_at w SysExists p of
          Some m \<Rightarrow> Inl (OSError m)
        | None \<Rightarrow> Inr (node_at w p \<noteq> None))"

definition path_is_file :: "world \<Rightarrow> path \<Rightarrow> exn + bool" where
  "path_is_file w p =
     (if \<not> encodable p then Inr False
      else
        case fault_at w SysIsFile p of
          Some m \<Rightarrow> Inl (OSError m)
        | None \<Rightarrow> Inr (case node_at w p of Some (File c) \<Rightarrow> True | _ \<Rightarrow> False))"

definition path_is_dir :: "world \<Rightarrow> path \<Rightarrow> exn + bool" where
  "path_is_dir w p =
     (if \<not> encodable p then Inr False
      else
        case fault_at w SysIsDir p of
          Some m \<Rightarrow> Inl (OSError m)
        | None \<Rightarrow> Inr (is_dir w p))"

text \<open>
  \<^verbatim>\<open>Path.stat().st_size\<close>: nothing is caught here. The size of a named pipe is 0.
\<close>

definition stat_size :: "world \<Rightarrow> path \<Rightarrow> exn + nat" where
  "stat_size w p =
     (if \<not> encodable p then Inl (OtherException ''embedded null byte'')
      else
        case fault_at w SysStat p of
          Some m \<Rightarrow> Inl (OSError m)
        | None \<Rightarrow>
            (case node_at w p of
               None \<Rightarrow> Inl (OSError ''No such file or directory'')
             | Some (File c) \<Rightarrow> Inr (length c)
             | Some Dir \<Rightarrow> Inr dir_st_size
             | Some Fifo \<Rightarrow> Inr 0))"

text \<open>
  \<^verbatim>\<open>Path.mkdir(parents=True, exist_ok=True)\<close>: the components of the path are walked from
  the root; a component that is a directory is passed, a missing one is created, and a
  regular file or a named pipe in the way raises. What was created before a failure stays.
  For a path that cannot be encoded the first \<^verbatim>\<open>os.mkdir\<close> raises \<^verbatim>\<open>ValueError\<close>, and
  nothing is created.
\<close>

fun mkdir_walk :: "world \<Rightarrow> path \<Rightarrow> string list \<Rightarrow> (exn + unit) \<times> world" where
  "mkdir_walk w pre [] = (Inr (), w)"
| "mkdir_walk w pre (c # cs) =
     (let p = pre @ [c] in
      case node_at w p of
        Some Dir \<Rightarrow> mkdir_walk w p cs
      | Some (File b) \<Rightarrow>
          (Inl (OSError (if cs = [] then ''File exists'' else ''Not a directory'')), w)
      | Some Fifo \<Rightarrow>
          (Inl (OSError (if cs = [] then ''File exists'' else ''Not a directory'')), w)
      | None \<Rightarrow>
          (case fault_at w SysMkdir p of
             Some m \<Rightarrow> (Inl (OSError m), w)
           | None \<Rightarrow> mkdir_walk (w\<lparr>fs := AList.update p Dir (fs w)\<rparr>) p cs))"

definition path_mkdir :: "world \<Rightarrow> path \<Rightarrow> (exn + unit) \<times> world" where
  "path_mkdir w p =
     (if \<not> encodable p then (Inl (OtherException ''embedded null byte''), w)
      else mkdir_walk w [] p)"

text \<open>
  \<^verbatim>\<open>shutil.copy2(src, dst)\<close>: a destination that is a directory stands for the file of the
  source's name inside it; a path that cannot be encoded raises the \<^verbatim>\<open>ValueError\<close> of
  \<^verbatim>\<open>os.stat\<close>; copying a file onto itself, a source that is missing, a directory or a named
  pipe, a target that is a directory or a named pipe and a target whose parent is no
  directory raise an \<^verbatim>\<open>OSError\<close>; otherwise the target holds the bytes of the source
  afterwards. A failed copy leaves the file system as it was.
\<close>

definition copy2 :: "world \<Rightarrow> path \<Rightarrow> path \<Rightarrow> (exn + unit) \<times> world" where
  "copy2 w s d =
     (let t = (if is_dir w d then joinpath d (parse_path (path_name s)) else d) in
      if \<not> (encodable s \<and> encodable t) then (Inl (OtherException ''embedded null byte''), w)
      else
     (case fault_at w SysCopy s of
        Some m \<Rightarrow> (Inl (OSError m), w)
      | None \<Rightarrow>
     (case fault_at w SysCopy t of
        Some m \<Rightarrow> (Inl (OSError m), w)
      | None \<Rightarrow>
     (case node_at w s of
        None \<Rightarrow> (Inl (OSError ''No such file or directory''), w)
      | Some Dir \<Rightarrow> (Inl (OSError ''Is a directory''), w)
      | Some Fifo \<Rightarrow> (Inl (OSError ''is a named pipe''), w)
      | Some (File c) \<Rightarrow>
          if s = t then (Inl (OSError ''are the same file''), w)
          else if is_dir w t then (Inl (OSError ''Is a directory''), w)
          else if node_at w t = Some Fifo then (Inl (OSError ''is a named pipe''), w)
          else if \<not> is_dir w (path_parent t)
            then (Inl (OSError ''No such file or directory''), w)
          else (Inr (), w\<lparr>fs := AList.update t (File c) (fs w)\<rparr>)))))"

text \<open>
  \<^verbatim>\<open>Path.iterdir()\<close>: the entries of a directory, in the order of the file system. The
  listing is made by one call of \<^verbatim>\<open>os.listdir\<close> (or \<^verbatim>\<open>os.scandir\<close>), before the first
  entry is handed out.
\<close>

definition is_child :: "path \<Rightarrow> path \<Rightarrow> bool" where
  "is_child d p = (path_parent p = d \<and> path_parent p \<noteq> p)"

definition iterdir :: "world \<Rightarrow> path \<Rightarrow> exn + path list" where
  "iterdir w d =
     (if \<not> encodable d then Inl (OtherException ''embedded null byte'')
      else
        case fault_at w SysListdir d of
          Some m \<Rightarrow> Inl (OSError m)
        | None \<Rightarrow>
            (case node_at w d of
               None \<Rightarrow> Inl (OSError ''No such file or directory'')
             | Some (File c) \<Rightarrow> Inl (OSError ''Not a directory'')
             | Some Fifo \<Rightarrow> Inl (OSError ''Not a directory'')
             | Some Dir \<Rightarrow> Inr (filter (is_child d) (map fst (fs w)))))"

section \<open>Helpers, discovery and the copy executor\<close>

text \<open>
  \<^verbatim>\<open>is_same_file\<close> (lines 57 to 64): \<open>is_same_file_try\<close> is the body of the \<^verbatim>\<open>try\<close>,
  evaluated left to right with the short circuit of \<^verbatim>\<open>and\<close>; the handler catches
  \<^verbatim>\<open>OSError\<close> only, and any other exception leaves \<^verbatim>\<open>is_same_file\<close>.
\<close>

definition is_same_file_try :: "world \<Rightarrow> path \<Rightarrow> path \<Rightarrow> exn + bool" where
  "is_same_file_try w s d =
     (case path_exists w d of
        Inl e \<Rightarrow> Inl e
      | Inr ex \<Rightarrow>
          if \<not> ex then Inr False
          else
            (case stat_size w s of
               Inl e \<Rightarrow> Inl e
             | Inr n \<Rightarrow>
                 (case stat_size w d of
                    Inl e \<Rightarrow> Inl e
                  | Inr m \<Rightarrow> Inr (n = m))))"

definition is_same_file :: "world \<Rightarrow> path \<Rightarrow> path \<Rightarrow> exn + bool" where
  "is_same_file w s d =
     (case is_same_file_try w s d of
        Inr b \<Rightarrow> Inr b
      | Inl (OSError m) \<Rightarrow> Inr False
      | Inl (OtherException m) \<Rightarrow> Inl (OtherException m))"

text \<open>\<^verbatim>\<open>ensure_dir\<close> (lines 67 to 68).\<close>

definition ensure_dir :: "world \<Rightarrow> path \<Rightarrow> (exn + unit) \<times> world" where
  "ensure_dir w p = path_mkdir w p"

text \<open>
  \<^verbatim>\<open>discover_files\<close> (lines 96 to 108): the loop over \<^verbatim>\<open>src_dir.iterdir()\<close> with the two
  lists it appends to. An exception of \<^verbatim>\<open>iterdir\<close> or of a call of \<^verbatim>\<open>is_file\<close> leaves
  \<^verbatim>\<open>discover_files\<close>: nothing is caught there.
\<close>

definition IMAGE_EXTS :: "string set" where
  "IMAGE_EXTS = {''.png'', ''.jpg'', ''.jpeg'', ''.webp''}"

definition MODEL_EXTS :: "string set" where
  "MODEL_EXTS = {''.glb''}"

fun discover_loop ::
  "world \<Rightarrow> path list \<Rightarrow> path list \<Rightarrow> path list \<Rightarrow> exn + path list \<times> path list" where
  "discover_loop w images models [] = Inr (images, models)"
| "discover_loop w images models (p # ps) =
     (case path_is_file w p of
        Inl e \<Rightarrow> Inl e
      | Inr f \<Rightarrow>
          if \<not> f then discover_loop w images models ps
          else
            let ext = lower (path_suffix p) in
            if ext \<in> IMAGE_EXTS then discover_loop w (images @ [p]) models ps
            else if ext \<in> MODEL_EXTS then discover_loop w images (models @ [p]) ps
            else discover_loop w images models ps)"

definition discover_files :: "world \<Rightarrow> path \<Rightarrow> exn + path list \<times> path list" where
  "discover_files w src_dir =
     (case iterdir w src_dir of
        Inl e \<Rightarrow> Inl e
      | Inr entries \<Rightarrow> discover_loop w [] [] entries)"

text \<open>
  \<^verbatim>\<open>copy_one\<close> (lines 122 to 136). The call of \<^verbatim>\<open>ensure_dir\<close> and the call of
  \<^verbatim>\<open>is_same_file\<close> stand before the \<^verbatim>\<open>try\<close>: an exception of theirs leaves \<^verbatim>\<open>copy_one\<close>.
  The handler of the \<^verbatim>\<open>try\<close> catches every \<^verbatim>\<open>Exception\<close>.
\<close>

definition copy_one ::
  "world \<Rightarrow> CopyPlan \<Rightarrow> bool \<Rightarrow> (exn + CopyPlan \<times> string) \<times> world" where
  "copy_one w plan dry_run =
     (let dest_parent = path_parent (dest plan) in
      case ensure_dir w dest_parent of
        (Inl e, w1) \<Rightarrow> (Inl e, w1)
      | (Inr u, w1) \<Rightarrow>
          (case is_same_file w1 (src plan) (dest plan) of
             Inl e \<Rightarrow> (Inl e, w1)
           | Inr same \<Rightarrow>
               if same then (Inr (plan, ''skip (same size)''), w1)
               else if dry_run then (Inr (plan, ''dry-run (would copy)''), w1)
               else
                 (case copy2 w1 (src plan) (dest plan) of
                    (Inr u, w2) \<Rightarrow> (Inr (plan, ''copied''), w2)
                  | (Inl e, w2) \<Rightarrow> (Inr (plan, ''ERROR: '' @ exn_str e), w2))))"

section \<open>Example worlds\<close>

text \<open>
  Concrete file systems and plans at which the functions are evaluated: a source directory
  \<^verbatim>\<open>/s\<close> with the three-byte file \<^verbatim>\<open>d1.png\<close>, and the plan that copies it to
  \<^verbatim>\<open>/a/images/da.png\<close>. In \<open>w_fresh\<close> the destination root does not exist yet; in
  \<open>w_blocked\<close> a regular file \<^verbatim>\<open>/a\<close> stands where the destination directory is needed; in
  \<open>w_copied\<close> the copy is already there; \<open>w_vanish\<close> is \<open>w_copied\<close> where \<^verbatim>\<open>stat\<close> of the
  destination fails although the existence check succeeds. \<open>plan_nul\<close> is a plan with the
  same destination whose source path has the character \<^verbatim>\<open>NUL\<close> in its name.
\<close>

definition plan_d1 :: CopyPlan where
  "plan_d1 = \<lparr>src = [''/'', ''s'', ''d1.png''], dest = [''/'', ''a'', ''images'', ''da.png''],
     kind = ''image''\<rparr>"

definition plan_nul :: CopyPlan where
  "plan_nul = \<lparr>src = [''/'', ''s'', [CHR ''d'', CHR 0x00, CHR ''1'']],
     dest = [''/'', ''a'', ''images'', ''da.png''], kind = ''image''\<rparr>"

definition w_fresh :: world where
  "w_fresh = \<lparr>fs = [([''/'', ''s''], Dir), ([''/'', ''s'', ''d1.png''], File ''abc'')],
     faults = []\<rparr>"

definition w_blocked :: world where
  "w_blocked = \<lparr>fs = [([''/'', ''s''], Dir), ([''/'', ''s'', ''d1.png''], File ''abc''),
       ([''/'', ''a''], File ''x'')],
     faults = []\<rparr>"

definition w_copied :: world where
  "w_copied = \<lparr>fs = [([''/'', ''s''], Dir), ([''/'', ''s'', ''d1.png''], File ''abc''),
       ([''/'', ''a''], Dir), ([''/'', ''a'', ''images''], Dir),
       ([''/'', ''a'', ''images'', ''da.png''], File ''xyz'')],
     faults = []\<rparr>"

definition w_vanish :: world where
  "w_vanish = w_copied\<lparr>faults :=
     [((SysStat, [''/'', ''a'', ''images'', ''da.png'']), ''No such file or directory'')]\<rparr>"

text \<open>
  The file system is a tree when every entry lies in a directory: the parent of every path
  of the file system is a directory.
\<close>

definition wf_world :: "world \<Rightarrow> bool" where
  "wf_world w = list_all (\<lambda>(p, n). is_dir w (path_parent p)) (fs w)"

section \<open>Command line and main\<close>

text \<open>
  The two classes of entries that discovery keeps, as predicates on an entry: \<^verbatim>\<open>is_file\<close>
  answers \<^verbatim>\<open>True\<close> for it, and its lowercased extension is in the set of the class.
\<close>

definition is_image_file :: "world \<Rightarrow> path \<Rightarrow> bool" where
  "is_image_file w p = (path_is_file w p = Inr True \<and> lower (path_suffix p) \<in> IMAGE_EXTS)"

definition is_model_file :: "world \<Rightarrow> path \<Rightarrow> bool" where
  "is_model_file w p = (path_is_file w p = Inr True \<and> lower (path_suffix p) \<in> MODEL_EXTS)"

text \<open>
  The parsed arguments (\<^verbatim>\<open>parse_args\<close>, lines 141 to 151) are a record; \<open>src_dir\<close> is
  \<^verbatim>\<open>args.src\<close>. Parsing itself and the printed lines are not modelled.
\<close>

record args =
  src_dir :: path
  project_root :: path
  images_dir :: path
  models_dir :: path
  threads :: int
  dry_run :: bool

text \<open>
  The worker pool of \<^verbatim>\<open>main\<close> (lines 184 to 198) is modelled by the sequential schedule:
  the plans run one after the other in the order of submission, each on the world the
  previous one left; this is the schedule of one worker, and one of the schedules of several.
  A plan that raises does not stop the others: its future holds the exception, and
  \<^verbatim>\<open>fut.result()\<close> raises it again in the loop that counts the outcomes. \<open>tally\<close> is that
  loop, with the three counters as accumulator.
\<close>

fun run_pool ::
  "world \<Rightarrow> bool \<Rightarrow> CopyPlan list \<Rightarrow> (exn + CopyPlan \<times> string) list \<times> world" where
  "run_pool w dry [] = ([], w)"
| "run_pool w dry (plan # plans) =
     (case copy_one w plan dry of
        (r, w1) \<Rightarrow> (case run_pool w1 dry plans of (rs, w2) \<Rightarrow> (r # rs, w2)))"

fun tally ::
  "nat \<times> nat \<times> nat \<Rightarrow> (exn + CopyPlan \<times> string) list \<Rightarrow> exn + nat \<times> nat \<times> nat" where
  "tally (copied, skipped, errors) [] = Inr (copied, skipped, errors)"
| "tally (copied, skipped, errors) (Inl e # rs) = Inl e"
| "tally (copied, skipped, errors) (Inr (plan, status) # rs) =
     (if prefix ''copied'' status then tally (copied + 1, skipped, errors) rs
      else if prefix ''skip'' status then tally (copied, skipped + 1, errors) rs
      else if prefix ''dry-run'' status then tally (copied, skipped, errors) rs
      else tally (copied, skipped, errors + 1) rs)"

text \<open>
  \<^verbatim>\<open>main\<close> (lines 154 to 205), with the working directory \<^verbatim>\<open>Path.cwd()\<close> as a parameter.
  The result is the exit code, or the exception that leaves \<^verbatim>\<open>main\<close>.
\<close>

definition main :: "world \<Rightarrow> path \<Rightarrow> args \<Rightarrow> (exn + int) \<times> world" where
  "main w cwd a =
     (case path_exists w (src_dir a) of
        Inl e \<Rightarrow> (Inl e, w)
      | Inr ex \<Rightarrow>
          if \<not> ex then (Inr 2, w)
          else
            (case path_is_dir w (src_dir a) of
               Inl e \<Rightarrow> (Inl e, w)
             | Inr isd \<Rightarrow>
                 if \<not> isd then (Inr 2, w)
                 else
                   let proj = (if is_absolute (project_root a) then project_root a
                               else joinpath cwd (project_root a));
                       images_dest = (if is_absolute (images_dir a) then images_dir a
                                      else joinpath proj (images_dir a));
                       models_dest = (if is_absolute (models_dir a) then models_dir a
                                      else joinpath proj (models_dir a))
                   in
                   (case discover_files w (src_dir a) of
                      Inl e \<Rightarrow> (Inl e, w)
                    | Inr (images, models) \<Rightarrow>
                        let plans = build_copy_plans images models images_dest models_dest in
                        if plans = [] then (Inr 0, w)
                        else
                          (case run_pool w (dry_run a) plans of
                             (results, w') \<Rightarrow>
                               (case tally (0, 0, 0) results of
                                  Inl e \<Rightarrow> (Inl e, w')
                                | Inr (copied, skipped, errors) \<Rightarrow>
                                    (Inr (if errors \<noteq> 0 then 1 else 0), w'))))))"

text \<open>
  The plans \<^verbatim>\<open>main\<close> builds for a listing of the source directory, and the test that an
  outcome is an error outcome, that is, none of the three other outcomes.
\<close>

definition plans_of :: "world \<Rightarrow> path \<Rightarrow> args \<Rightarrow> path list \<Rightarrow> CopyPlan list" where
  "plans_of w cwd a entries =
     (let proj = (if is_absolute (project_root a) then project_root a
                  else joinpath cwd (project_root a));
          images_dest = (if is_absolute (images_dir a) then images_dir a
                         else joinpath proj (images_dir a));
          models_dest = (if is_absolute (models_dir a) then models_dir a
                         else joinpath proj (models_dir a))
      in build_copy_plans (filter (is_image_file w) entries) (filter (is_model_file w) entries)
           images_dest models_dest)"

definition is_error_outcome :: "exn + CopyPlan \<times> string \<Rightarrow> bool" where
  "is_error_outcome r =
     (case r of Inl e \<Rightarrow> False | Inr (plan, status) \<Rightarrow> prefix ''ERROR: '' status)"

text \<open>
  More example worlds. \<open>w_mixed\<close>: a source directory with an image, a sub-directory, a
  model with an upper-case extension, a text file, a directory with the name of an image, a
  named pipe with the name of an image, and an image inside the sub-directory.
  \<open>w_denied\<close>: the same, where \<^verbatim>\<open>is_file\<close> of the model fails. \<open>w_unreadable\<close>: the source
  directory of \<open>w_fresh\<close>, which exists and is a directory, cannot be listed. \<open>w_clash\<close>:
  two source files of different sizes with the same normalized name.
\<close>

definition w_mixed :: world where
  "w_mixed = \<lparr>fs = [([''/'', ''s''], Dir),
       ([''/'', ''s'', ''d1.png''], File ''abc''),
       ([''/'', ''s'', ''sub''], Dir),
       ([''/'', ''s'', ''H5.GLB''], File ''xy''),
       ([''/'', ''s'', ''notes.txt''], File ''n''),
       ([''/'', ''s'', ''x.png''], Dir),
       ([''/'', ''s'', ''pipe.png''], Fifo),
       ([''/'', ''s'', ''sub'', ''c2.png''], File ''deep'')],
     faults = []\<rparr>"

definition w_denied :: world where
  "w_denied = w_mixed\<lparr>faults := [((SysIsFile, [''/'', ''s'', ''H5.GLB'']), ''Permission denied'')]\<rparr>"

definition w_unreadable :: world where
  "w_unreadable = w_fresh\<lparr>faults := [((SysListdir, [''/'', ''s'']), ''Permission denied'')]\<rparr>"

definition w_clash :: world where
  "w_clash = \<lparr>fs = [([''/'', ''s''], Dir),
       ([''/'', ''s'', ''d1.png''], File ''a''),
       ([''/'', ''s'', ''da.png''], File ''bb'')],
     faults = []\<rparr>"

definition args_example :: args where
  "args_example = \<lparr>src_dir = [''/'', ''s''], project_root = [''/'', ''a''],
     images_dir = [''images''], models_dir = [''models''], threads = 10, dry_run = False\<rparr>"

section \<open>Lemmas on strings and names\<close>

lemmas letter_defs = uppercase_letters_def lowercase_letters_def ascii_uppercase_def
  ascii_lowercase_def latin1_uppercase_def latin1_lowercase_def

lemma lower_char_not_upper: "lower_char c \<notin> set uppercase_letters"
  by (simp add: lower_char_def letter_defs)

lemma lower_char_fix: "c \<notin> set uppercase_letters \<Longrightarrow> lower_char c = c"
  by (simp add: lower_char_def letter_defs)

lemma lower_char_idem: "lower_char (lower_char c) = lower_char c"
  by (rule lower_char_fix [OF lower_char_not_upper])

lemma lower_char_dot: "lower_char c = CHR ''.'' \<longleftrightarrow> c = CHR ''.''"
  by (simp add: lower_char_def letter_defs)

lemma lower_char_slash: "lower_char c = CHR ''/'' \<longleftrightarrow> c = CHR ''/''"
  by (simp add: lower_char_def letter_defs)

lemma lower_char_dot_sym: "CHR ''.'' = lower_char c \<longleftrightarrow> c = CHR ''.''"
  using lower_char_dot [of c] by auto

lemma lower_char_slash_sym: "CHR ''/'' = lower_char c \<longleftrightarrow> c = CHR ''/''"
  using lower_char_slash [of c] by auto

lemma lower_Nil: "lower [] = []"
  by (simp add: lower_def)

lemma lower_idem: "lower (lower s) = lower s"
  by (simp add: lower_def lower_char_idem)

lemma lower_append: "lower (a @ b) = lower a @ lower b"
  by (simp add: lower_def)

lemma length_lower: "length (lower s) = length s"
  by (simp add: lower_def)

lemma lower_Nil_iff: "lower s = [] \<longleftrightarrow> s = []"
  by (simp add: lower_def)

lemma lower_take: "lower (take n s) = take n (lower s)"
  by (simp add: lower_def take_map)

lemma lower_drop: "lower (drop n s) = drop n (lower s)"
  by (simp add: lower_def drop_map)

lemma dot_in_lower: "CHR ''.'' \<in> set (lower s) \<longleftrightarrow> CHR ''.'' \<in> set s"
  by (induction s) (auto simp: lower_def lower_char_dot lower_char_dot_sym)

lemma slash_in_lower: "CHR ''/'' \<in> set (lower s) \<longleftrightarrow> CHR ''/'' \<in> set s"
  by (induction s) (auto simp: lower_def lower_char_slash lower_char_slash_sym)

lemma rfind_ge: "- 1 \<le> rfind c s"
  by (induction s) (auto simp: Let_def)

lemma rfind_neg_iff: "rfind c s < 0 \<longleftrightarrow> c \<notin> set s"
  by (induction s) (auto simp: Let_def)

lemma rfind_lt_length: "rfind c s < int (length s)"
  by (induction s) (auto simp: Let_def)

lemma rfind_append: "c \<notin> set r \<Longrightarrow> rfind c (a @ c # r) = int (length a)"
proof (induction a)
  case Nil
  then have "rfind c r < 0" by (simp add: rfind_neg_iff)
  then show ?case by (simp add: Let_def)
next
  case (Cons x a)
  then show ?case by (simp add: Let_def)
qed

lemma rfind_drop:
  "0 \<le> rfind c s \<Longrightarrow> drop (nat (rfind c s)) s = c # drop (Suc (nat (rfind c s))) s
     \<and> c \<notin> set (drop (Suc (nat (rfind c s))) s)"
proof (induction s)
  case Nil
  then show ?case by simp
next
  case (Cons x xs)
  show ?case
  proof (cases "0 \<le> rfind c xs")
    case True
    then have "nat (rfind c xs + 1) = Suc (nat (rfind c xs))" by simp
    with True Cons.IH show ?thesis by (simp add: Let_def)
  next
    case False
    then have "c \<notin> set xs" using rfind_neg_iff [of c xs] by simp
    with False Cons.prems show ?thesis by (simp add: Let_def split: if_splits)
  qed
qed

lemma rfind_lower: "rfind (CHR ''.'') (lower s) = rfind (CHR ''.'') s"
  by (induction s) (simp_all add: lower_def Let_def lower_char_dot)

lemma name_stem_suffix: "name_stem n @ name_suffix n = n"
  by (simp add: name_stem_def name_suffix_def Let_def)

lemma name_suffix_lower: "name_suffix (lower n) = lower (name_suffix n)"
  by (simp add: name_suffix_def Let_def rfind_lower length_lower lower_drop lower_Nil)

lemma name_stem_lower: "name_stem (lower n) = lower (name_stem n)"
  by (simp add: name_stem_def Let_def rfind_lower length_lower lower_take)

lemma name_suffix_cases:
  "name_suffix n = [] \<and> name_stem n = n
   \<or> (\<exists>r. name_suffix n = CHR ''.'' # r \<and> r \<noteq> [] \<and> CHR ''.'' \<notin> set r \<and> name_stem n \<noteq> [])"
proof (cases "0 < rfind (CHR ''.'') n \<and> rfind (CHR ''.'') n < int (length n) - 1")
  case False
  then show ?thesis by (auto simp: name_suffix_def name_stem_def Let_def)
next
  case True
  let ?i = "nat (rfind (CHR ''.'') n)"
  from True have nn: "0 \<le> rfind (CHR ''.'') n" by simp
  from rfind_drop [OF nn]
  have d: "drop ?i n = CHR ''.'' # drop (Suc ?i) n"
    and nd: "CHR ''.'' \<notin> set (drop (Suc ?i) n)" by simp_all
  from True have "Suc ?i < length n" by linarith
  then have ne: "drop (Suc ?i) n \<noteq> []" by simp
  from True have "0 < ?i" "?i < length n" by linarith+
  then have st: "take ?i n \<noteq> []" by auto
  from True d nd ne st show ?thesis
    by (auto simp: name_suffix_def name_stem_def Let_def)
qed

lemma name_split_append:
  assumes "a \<noteq> []" "r \<noteq> []" "CHR ''.'' \<notin> set r"
  shows "name_stem (a @ CHR ''.'' # r) = a" and "name_suffix (a @ CHR ''.'' # r) = CHR ''.'' # r"
proof -
  have i: "rfind (CHR ''.'') (a @ CHR ''.'' # r) = int (length a)"
    using assms(3) by (rule rfind_append)
  from assms have c: "0 < int (length a) \<and> int (length a) < int (length (a @ CHR ''.'' # r)) - 1"
    by (cases r) auto
  show "name_stem (a @ CHR ''.'' # r) = a"
    using c by (simp add: name_stem_def Let_def i del: length_append)
  show "name_suffix (a @ CHR ''.'' # r) = CHR ''.'' # r"
    using c by (simp add: name_suffix_def Let_def i del: length_append)
qed

lemma name_no_dot: "CHR ''.'' \<notin> set n \<Longrightarrow> name_stem n = n \<and> name_suffix n = []"
  using rfind_neg_iff [of "CHR ''.''" n] by (simp add: name_stem_def name_suffix_def Let_def)

lemma split_sep_no_sep: "c \<notin> set s \<Longrightarrow> split_sep c s = [s]"
  by (induction s) auto

lemma split_sep_ne: "split_sep c s \<noteq> []"
  by (induction s) auto

lemma split_sep_pieces: "x \<in> set (split_sep c s) \<Longrightarrow> c \<notin> set x"
proof (induction s arbitrary: x)
  case Nil
  then show ?case by simp
next
  case (Cons a s)
  obtain y ys where r: "split_sep c s = y # ys"
    using split_sep_ne [of c s] by (cases "split_sep c s") auto
  with Cons show ?case by (auto split: if_splits)
qed

lemma parse_path_plain: "plain_name n \<Longrightarrow> path_name (parse_path n) = n"
  by (cases n) (auto simp: plain_name_def parse_path_def split_sep_no_sep path_name_def is_absolute_def)

lemma path_name_parse_plain: "plain_name (path_name (parse_path s))"
proof -
  let ?cs = "filter (\<lambda>c. c \<noteq> [] \<and> c \<noteq> ''.'') (split_sep (CHR ''/'') s)"
  have a: "\<And>c. c \<in> set ?cs \<Longrightarrow> plain_name c"
    by (auto simp: plain_name_def dest: split_sep_pieces)
  show ?thesis
  proof (cases "?cs = []")
    case True
    then show ?thesis by (simp add: parse_path_def path_name_def is_absolute_def plain_name_def Let_def)
  next
    case False
    then have "last ?cs \<in> set ?cs" by (rule last_in_set)
    then have "plain_name (last ?cs)" by (rule a)
    with False show ?thesis
      by (auto simp: parse_path_def path_name_def is_absolute_def plain_name_def Let_def split: list.splits)
  qed
qed

lemma upper_codes:
  "map char_of ([65..<91] @ [192..<215] @ [216..<223] :: nat list) = uppercase_letters"
  by (simp add: letter_defs char_of_eq_iff)

lemma code_in_upper:
  assumes "65 \<le> (of_char c :: nat) \<and> (of_char c :: nat) \<le> 90
     \<or> 192 \<le> (of_char c :: nat) \<and> (of_char c :: nat) \<le> 214
     \<or> 216 \<le> (of_char c :: nat) \<and> (of_char c :: nat) \<le> 222"
  shows "c \<in> set uppercase_letters"
proof -
  let ?n = "of_char c :: nat"
  from assms have "?n \<in> {65..<91} \<or> ?n \<in> {192..<215} \<or> ?n \<in> {216..<223}" by auto
  then have "?n \<in> set ([65..<91] @ [192..<215] @ [216..<223])"
    by (simp only: set_append set_upt Un_iff)
  then have "char_of ?n \<in> char_of ` set ([65..<91] @ [192..<215] @ [216..<223] :: nat list)"
    by (rule imageI)
  then have "char_of ?n \<in> set uppercase_letters"
    by (simp only: upper_codes [symmetric] set_map)
  then show ?thesis by simp
qed

lemma spec_lower_upper:
  "c \<in> set uppercase_letters \<Longrightarrow> spec_lower_char c = lower_char c"
  by (auto simp: letter_defs spec_lower_char_def lower_char_def char_of_eq_iff)

lemma spec_lower_char_eq: "spec_lower_char c = lower_char c"
proof (cases "c \<in> set uppercase_letters")
  case True
  then show ?thesis by (rule spec_lower_upper)
next
  case False
  with code_in_upper [of c]
  have "\<not> (65 \<le> (of_char c :: nat) \<and> (of_char c :: nat) \<le> 90
     \<or> 192 \<le> (of_char c :: nat) \<and> (of_char c :: nat) \<le> 214
     \<or> 216 \<le> (of_char c :: nat) \<and> (of_char c :: nat) \<le> 222)"
    by blast
  then have "spec_lower_char c = c"
    unfolding spec_lower_char_def Let_def by (rule if_not_P)
  with lower_char_fix [OF False] show ?thesis by simp
qed

lemma spec_lower_eq: "spec_lower s = lower s"
  by (simp add: spec_lower_def lower_def spec_lower_char_eq)

lemma spec_ext_eq: "spec_ext n = name_suffix n"
proof (cases "CHR ''.'' \<in> set n")
  case False
  then have tw: "takeWhile (\<lambda>c. c \<noteq> CHR ''.'') (rev n) = rev n"
    by (intro takeWhile_eq_all_conv [THEN iffD2]) auto
  have "spec_ext n = []" unfolding spec_ext_def Let_def tw by simp
  with name_no_dot [OF False] show ?thesis by simp
next
  case True
  then obtain a r where n: "n = a @ CHR ''.'' # r" and r: "CHR ''.'' \<notin> set r"
    by (auto dest: split_list_last)
  have i: "rfind (CHR ''.'') n = int (length a)"
    unfolding n using r by (rule rfind_append)
  have "takeWhile (\<lambda>c. c \<noteq> CHR ''.'') (rev n) = rev r"
    unfolding n using r by (auto simp: takeWhile_append2 takeWhile_tail)
  then have e: "spec_ext n = (if r \<noteq> [] \<and> a \<noteq> [] then CHR ''.'' # r else [])"
    by (auto simp: spec_ext_def n)
  have "name_suffix n = (if r \<noteq> [] \<and> a \<noteq> [] then CHR ''.'' # r else [])"
  proof (cases "r \<noteq> [] \<and> a \<noteq> []")
    case True
    with name_split_append(2) [of a r] r
    have "name_suffix (a @ CHR ''.'' # r) = CHR ''.'' # r" by simp
    with True show ?thesis by (simp add: n)
  next
    case False
    have "length n = length a + 1 + length r" by (simp add: n)
    with False
    have "\<not> (0 < rfind (CHR ''.'') n \<and> rfind (CHR ''.'') n < int (length n) - 1)"
      unfolding i by auto
    then have "name_suffix n = []" unfolding name_suffix_def Let_def by (rule if_not_P)
    with False show ?thesis by auto
  qed
  with e show ?thesis by simp
qed

lemma spec_stem_eq: "spec_stem n = name_stem n"
proof -
  have "take (length n - length (name_suffix n)) n = name_stem n"
    using name_stem_suffix [of n]
    by (metis add_diff_cancel_right' append_eq_conv_conj length_append)
  then show ?thesis by (simp add: spec_stem_def spec_ext_eq)
qed

lemma spec_normalize_alt:
  "spec_normalize filename =
     (case lower (name_stem filename) of
        [] \<Rightarrow> lower filename
      | [c] \<Rightarrow> lower filename
      | suit # r # rs \<Rightarrow>
          if suit = CHR ''c'' \<or> suit = CHR ''d'' \<or> suit = CHR ''h'' \<or> suit = CHR ''s''
          then suit # spec_rank (r # rs) @ lower (name_suffix filename)
          else lower filename)"
  by (simp only: spec_normalize_def spec_lower_eq spec_stem_eq spec_ext_eq)

lemma nb_spec: "normalize_basename p = spec_normalize (path_name p)"
  by (auto simp: normalize_basename_def spec_normalize_alt spec_rank_def path_stem_def path_suffix_def Let_def
      split: list.splits)

lemma spec_rank_consts: "spec_rank ''a'' = ''a''" "spec_rank ''10'' = ''10''"
  by (simp_all add: spec_rank_def)

lemma spec_rank_range: "spec_rank r = ''a'' \<or> spec_rank r = ''10'' \<or> spec_rank r = r"
  by (simp add: spec_rank_def)

lemma spec_rank_idem: "spec_rank (spec_rank r) = spec_rank r"
  using spec_rank_range [of r] by (auto simp: spec_rank_consts)

lemma spec_rank_ne: "r \<noteq> [] \<Longrightarrow> spec_rank r \<noteq> []"
  by (simp add: spec_rank_def)

lemma lower_rank_consts: "lower ''a'' = ''a''" "lower ''10'' = ''10''"
  by (simp_all add: lower_def lower_char_def letter_defs)

lemma spec_rank_lower:
  assumes "lower r = r"
  shows "lower (spec_rank r) = spec_rank r"
proof -
  from spec_rank_range [of r] consider "spec_rank r = ''a''" | "spec_rank r = ''10''" | "spec_rank r = r"
    by blast
  then show ?thesis
  proof cases
    case 1 then show ?thesis by (simp only: lower_rank_consts)
  next
    case 2 then show ?thesis by (simp only: lower_rank_consts)
  next
    case 3 then show ?thesis using assms by (simp only:)
  qed
qed

lemma spec_rank_cases: "spec_rank r = r \<or> CHR ''.'' \<notin> set (spec_rank r)"
  by (simp add: spec_rank_def)

lemma is_suit_lower: "is_suit c \<Longrightarrow> lower_char c = c"
  by (rule lower_char_fix) (auto simp: is_suit_def letter_defs)

lemma is_suit_dot: "is_suit c \<Longrightarrow> c \<noteq> CHR ''.''"
  by (auto simp: is_suit_def)

lemma spec_normalize_main:
  assumes "lower (name_stem n) = c # r # rs" "is_suit c"
  shows "spec_normalize n = (c # spec_rank (r # rs)) @ lower (name_suffix n)"
  using assms by (simp add: spec_normalize_alt is_suit_def)

lemma spec_normalize_fallback:
  assumes "lower (name_stem n) = [] \<or> (\<exists>c. lower (name_stem n) = [c])
     \<or> (\<exists>c r rs. lower (name_stem n) = c # r # rs \<and> \<not> is_suit c)"
  shows "spec_normalize n = lower n"
proof -
  from assms consider "lower (name_stem n) = []" | c where "lower (name_stem n) = [c]"
    | c r rs where "lower (name_stem n) = c # r # rs" "\<not> is_suit c" by blast
  then show ?thesis
  proof cases
    case 1 then show ?thesis by (simp add: spec_normalize_alt)
  next
    case 2 then show ?thesis by (simp add: spec_normalize_alt)
  next
    case 3 then show ?thesis by (simp add: spec_normalize_alt is_suit_def)
  qed
qed

lemma spec_normalize_idem: "spec_normalize (spec_normalize n) = spec_normalize n"
proof (cases "\<exists>c r rs. lower (name_stem n) = c # r # rs \<and> is_suit c")
  case False
  then have fb: "lower (name_stem n) = [] \<or> (\<exists>c. lower (name_stem n) = [c])
     \<or> (\<exists>c r rs. lower (name_stem n) = c # r # rs \<and> \<not> is_suit c)"
  proof (cases "lower (name_stem n)")
    case Nil then show ?thesis by simp
  next
    case (Cons c t)
    show ?thesis
    proof (cases t)
      case Nil with Cons show ?thesis by simp
    next
      case (Cons r rs)
      with \<open>lower (name_stem n) = c # t\<close> False show ?thesis by simp
    qed
  qed
  then have 1: "spec_normalize n = lower n" by (rule spec_normalize_fallback)
  have "lower (name_stem (lower n)) = lower (name_stem n)"
    by (simp add: name_stem_lower lower_idem)
  with fb have "spec_normalize (lower n) = lower (lower n)"
    by (intro spec_normalize_fallback) simp
  with 1 show ?thesis by (simp add: lower_idem)
next
  case True
  then obtain c r rs where st: "lower (name_stem n) = c # r # rs" and su: "is_suit c"
    by blast
  let ?ro = "spec_rank (r # rs)"
  let ?a = "c # ?ro"
  let ?sf = "lower (name_suffix n)"
  have 1: "spec_normalize n = ?a @ ?sf" using st su by (rule spec_normalize_main)
  have "lower (c # r # rs) = c # r # rs" using st lower_idem [of "name_stem n"] by simp
  then have lr: "lower (r # rs) = r # rs" by (simp add: lower_def)
  have la: "lower ?a = ?a"
    using spec_rank_lower [OF lr] is_suit_lower [OF su] by (simp add: lower_def)
  obtain x xs where ro: "?ro = x # xs"
    using spec_rank_ne [of "r # rs"] by (cases ?ro) auto
  have split: "name_stem (?a @ ?sf) = ?a \<and> name_suffix (?a @ ?sf) = ?sf"
  proof -
    from name_suffix_cases [of n] show ?thesis
    proof
      assume e: "name_suffix n = [] \<and> name_stem n = n"
      from spec_rank_cases [of "r # rs"] show ?thesis
      proof
        assume "?ro = r # rs"
        with st e have "?a = lower n" by simp
        with e show ?thesis
          by (simp add: lower_Nil name_stem_lower name_suffix_lower)
      next
        assume "CHR ''.'' \<notin> set ?ro"
        with is_suit_dot [OF su] have "CHR ''.'' \<notin> set ?a" by auto
        from name_no_dot [OF this] e show ?thesis by (simp add: lower_Nil)
      qed
    next
      assume "\<exists>r'. name_suffix n = CHR ''.'' # r' \<and> r' \<noteq> [] \<and> CHR ''.'' \<notin> set r' \<and> name_stem n \<noteq> []"
      then obtain r' where s: "name_suffix n = CHR ''.'' # r'" and ne: "r' \<noteq> []"
        and nd: "CHR ''.'' \<notin> set r'" by blast
      have sf: "?sf = CHR ''.'' # lower r'"
        using s by (simp add: lower_def lower_char_dot [THEN iffD2])
      have ne': "lower r' \<noteq> []" using ne by (simp add: lower_Nil_iff)
      have nd': "CHR ''.'' \<notin> set (lower r')" using nd by (simp add: dot_in_lower)
      have "?a \<noteq> []" by simp
      from name_split_append [OF this ne' nd'] sf show ?thesis by simp
    qed
  qed
  have st2: "lower (name_stem (?a @ ?sf)) = c # x # xs"
    using split la ro by simp
  have "spec_normalize (?a @ ?sf) = (c # spec_rank (x # xs)) @ lower (name_suffix (?a @ ?sf))"
    using st2 su by (rule spec_normalize_main)
  also have "\<dots> = ?a @ ?sf"
    using split ro spec_rank_idem [of "r # rs"] by (simp add: lower_idem)
  finally show ?thesis using 1 by simp
qed

lemma set_name_stem: "set (name_stem n) \<subseteq> set n"
  by (auto simp: name_stem_def Let_def dest: in_set_takeD)

lemma set_name_suffix: "set (name_suffix n) \<subseteq> set n"
  by (auto simp: name_suffix_def Let_def dest: in_set_dropD)

lemma lower_eq_dot: "lower n = ''.'' \<longleftrightarrow> n = ''.''"
  by (cases n) (auto simp: lower_def lower_char_dot)

lemma spec_rank_slash: "CHR ''/'' \<notin> set r \<Longrightarrow> CHR ''/'' \<notin> set (spec_rank r)"
  using spec_rank_range [of r] by auto

lemma spec_normalize_plain:
  assumes "plain_name n"
  shows "plain_name (spec_normalize n)"
proof (cases "\<exists>c r rs. lower (name_stem n) = c # r # rs \<and> is_suit c")
  case False
  then have fb: "lower (name_stem n) = [] \<or> (\<exists>c. lower (name_stem n) = [c])
     \<or> (\<exists>c r rs. lower (name_stem n) = c # r # rs \<and> \<not> is_suit c)"
  proof (cases "lower (name_stem n)")
    case Nil then show ?thesis by simp
  next
    case (Cons c t)
    show ?thesis
    proof (cases t)
      case Nil with Cons show ?thesis by simp
    next
      case (Cons r rs)
      with \<open>lower (name_stem n) = c # t\<close> False show ?thesis by simp
    qed
  qed
  then have "spec_normalize n = lower n" by (rule spec_normalize_fallback)
  with assms show ?thesis by (simp add: plain_name_def lower_eq_dot slash_in_lower)
next
  case True
  then obtain c r rs where st: "lower (name_stem n) = c # r # rs" and su: "is_suit c"
    by blast
  have 1: "spec_normalize n = (c # spec_rank (r # rs)) @ lower (name_suffix n)"
    using st su by (rule spec_normalize_main)
  from assms have ns: "CHR ''/'' \<notin> set n" by (simp add: plain_name_def)
  with set_name_stem [of n] have "CHR ''/'' \<notin> set (name_stem n)" by auto
  then have "CHR ''/'' \<notin> set (lower (name_stem n))" by (simp add: slash_in_lower)
  with st have a: "c \<noteq> CHR ''/''" and b: "CHR ''/'' \<notin> set (r # rs)" by auto
  from ns set_name_suffix [of n] have "CHR ''/'' \<notin> set (name_suffix n)" by auto
  then have d: "CHR ''/'' \<notin> set (lower (name_suffix n))" by (simp add: slash_in_lower)
  have e: "spec_rank (r # rs) \<noteq> []" by (rule spec_rank_ne) simp
  from a spec_rank_slash [OF b] d e show ?thesis
    unfolding 1 plain_name_def by (cases "spec_rank (r # rs)") auto
qed

lemma spec_normalize_cases:
  "spec_normalize n = lower n
   \<or> (\<exists>c r rs. lower (name_stem n) = c # r # rs \<and> is_suit c
         \<and> spec_normalize n = (c # spec_rank (r # rs)) @ lower (name_suffix n))"
proof (cases "\<exists>c r rs. lower (name_stem n) = c # r # rs \<and> is_suit c")
  case False
  then have "lower (name_stem n) = [] \<or> (\<exists>c. lower (name_stem n) = [c])
     \<or> (\<exists>c r rs. lower (name_stem n) = c # r # rs \<and> \<not> is_suit c)"
  proof (cases "lower (name_stem n)")
    case Nil then show ?thesis by simp
  next
    case (Cons c t)
    show ?thesis
    proof (cases t)
      case Nil with Cons show ?thesis by simp
    next
      case (Cons r rs)
      with \<open>lower (name_stem n) = c # t\<close> False show ?thesis by simp
    qed
  qed
  then have "spec_normalize n = lower n" by (rule spec_normalize_fallback)
  then show ?thesis by simp
next
  case True
  then obtain c r rs where st: "lower (name_stem n) = c # r # rs" and su: "is_suit c"
    by blast
  from spec_normalize_main [OF st su] st su show ?thesis by blast
qed

lemma spec_normalize_lower: "lower (spec_normalize n) = spec_normalize n"
proof -
  from spec_normalize_cases [of n]
  consider "spec_normalize n = lower n"
    | c r rs where "lower (name_stem n) = c # r # rs" "is_suit c"
        "spec_normalize n = (c # spec_rank (r # rs)) @ lower (name_suffix n)"
    by blast
  then show ?thesis
  proof cases
    case 1
    then show ?thesis by (simp add: lower_idem)
  next
    case 2
    have "lower (c # r # rs) = c # r # rs" using 2(1) lower_idem [of "name_stem n"] by simp
    then have lr: "lower (r # rs) = r # rs" by (simp add: lower_def)
    have la: "lower (c # spec_rank (r # rs)) = c # spec_rank (r # rs)"
      using spec_rank_lower [OF lr] is_suit_lower [OF 2(2)] by (simp add: lower_def)
    show ?thesis unfolding 2(3) by (simp only: lower_append la lower_idem)
  qed
qed

lemma lower_fix_no_upper:
  assumes "lower s = s"
  shows "set s \<inter> set uppercase_letters = {}"
proof -
  have "set (lower s) \<inter> set uppercase_letters = {}"
    using lower_char_not_upper by (auto simp: lower_def)
  with assms show ?thesis by simp
qed

lemmas eval_name_defs =
  normalize_basename_def parse_path_def path_stem_def path_suffix_def path_name_def
  is_absolute_def name_stem_def name_suffix_def lower_def lower_char_def letter_defs Let_def

lemma normalize_examples:
  "normalize_basename (parse_path ''d1.png'') = ''da.png''"
  "normalize_basename (parse_path ''dt.png'') = ''d10.png''"
  "normalize_basename (parse_path ''s10.jpg'') = ''s10.jpg''"
  "normalize_basename (parse_path ''h5.webp'') = ''h5.webp''"
  "normalize_basename (parse_path ''zz.png'') = ''zz.png''"
  by (simp_all add: eval_name_defs)

lemma normalize_upper_examples:
  "normalize_basename (parse_path ''D1.PNG'') = ''da.png''"
  "normalize_basename (parse_path ''HT.Jpg'') = ''h10.jpg''"
  "normalize_basename (parse_path ''S10.JPEG'') = ''s10.jpeg''"
  "normalize_basename (parse_path ''ZZ.PNG'') = ''zz.png''"
  "normalize_basename (parse_path ''C.PNG'') = ''c.png''"
  "normalize_basename (parse_path ''README'') = ''readme''"
  "normalize_basename (parse_path [CHR ''C'', CHR 0xC9, CHR ''.'', CHR ''P'', CHR ''n'', CHR ''g''])
     = [CHR ''c'', CHR 0xE9, CHR ''.'', CHR ''p'', CHR ''n'', CHR ''g'']"
  by (simp_all add: eval_name_defs)

section \<open>The name normalizer: claims C1 and C9\<close>

text \<open>
  Claim C1. For every source path, \<open>normalize_basename\<close> computes what the five steps of the
  specification compute on the file name of the path, where the specification's side has its
  own lowercasing, stem and extension: the lowercased file name when the lowercased stem has
  fewer than two characters or does not start with one of c, d, h, s, and otherwise suit,
  normalized rank (\<^verbatim>\<open>1\<close> to \<^verbatim>\<open>a\<close>, \<^verbatim>\<open>t\<close> and \<^verbatim>\<open>10\<close> to \<^verbatim>\<open>10\<close>, any other rank unchanged)
  and lowercased extension. No capital letter is left in the result. The five examples of
  the specification evaluate as stated, and so do names written with capital letters: they
  give the result of their lowercased spelling.
\<close>

theorem normalize_basename_refines_spec:
  "normalize_basename p = spec_normalize (path_name p)
   \<and> set (normalize_basename p) \<inter> set uppercase_letters = {}
   \<and> normalize_basename (parse_path ''d1.png'') = ''da.png''
   \<and> normalize_basename (parse_path ''dt.png'') = ''d10.png''
   \<and> normalize_basename (parse_path ''s10.jpg'') = ''s10.jpg''
   \<and> normalize_basename (parse_path ''h5.webp'') = ''h5.webp''
   \<and> normalize_basename (parse_path ''zz.png'') = ''zz.png''
   \<and> normalize_basename (parse_path ''D1.PNG'') = ''da.png''
   \<and> normalize_basename (parse_path ''HT.Jpg'') = ''h10.jpg''
   \<and> normalize_basename (parse_path ''S10.JPEG'') = ''s10.jpeg''
   \<and> normalize_basename (parse_path ''ZZ.PNG'') = ''zz.png''
   \<and> normalize_basename (parse_path ''C.PNG'') = ''c.png''
   \<and> normalize_basename (parse_path ''README'') = ''readme''
   \<and> normalize_basename (parse_path [CHR ''C'', CHR 0xC9, CHR ''.'', CHR ''P'', CHR ''n'', CHR ''g''])
       = [CHR ''c'', CHR 0xE9, CHR ''.'', CHR ''p'', CHR ''n'', CHR ''g'']"
proof -
  have "lower (normalize_basename p) = normalize_basename p"
    by (simp only: nb_spec spec_normalize_lower)
  then have "set (normalize_basename p) \<inter> set uppercase_letters = {}"
    by (rule lower_fix_no_upper)
  with nb_spec [of p] normalize_examples normalize_upper_examples show ?thesis
    by (simp only: simp_thms)
qed

text \<open>
  Claim C9. Normalization is idempotent: for every file name \<open>f\<close>, normalizing
  \<^verbatim>\<open>Path(f)\<close> and then normalizing the path made of the result gives the result again. This
  holds for every string, not only for the valid suit and rank names.
\<close>

theorem normalize_basename_idempotent:
  "normalize_basename (parse_path (normalize_basename (parse_path f)))
     = normalize_basename (parse_path f)"
proof -
  let ?n = "path_name (parse_path f)"
  have p: "plain_name (spec_normalize ?n)"
    by (rule spec_normalize_plain) (rule path_name_parse_plain)
  show ?thesis
    by (simp add: nb_spec parse_path_plain [OF p] spec_normalize_idem)
qed

section \<open>The plan builder: claim C8\<close>














section \<open>The size check: claim C10\<close>

lemma node_at_update:
  "node_at (w\<lparr>fs := AList.update q n (fs w)\<rparr>) p =
     (if p = [] \<or> p = [''/''] then Some Dir else if p = q then Some n else node_at w p)"
  by (simp add: node_at_def update_conv')

lemma fault_at_fs_update [simp]: "fault_at (w\<lparr>fs := x\<rparr>) c p = fault_at w c p"
  by (simp add: fault_at_def)


lemma path_exists_True_encodable: "path_exists w p = Inr True \<Longrightarrow> encodable p"
  by (auto simp: path_exists_def split: option.splits if_splits)




lemma is_same_file_sizes:
  "path_exists w d = Inr True \<Longrightarrow> stat_size w s = Inr n \<Longrightarrow> stat_size w d = Inr m \<Longrightarrow>
   is_same_file w s d = Inr (n = m)"
  by (simp add: is_same_file_def is_same_file_try_def)







lemma copy_one_not_same:
  assumes "ensure_dir w (path_parent (dest plan)) = (Inr (), w1)"
    and "is_same_file w1 (src plan) (dest plan) = Inr False"
  shows "copy_one w plan False =
     (case copy2 w1 (src plan) (dest plan) of
        (Inr u, w2) \<Rightarrow> (Inr (plan, ''copied''), w2)
      | (Inl e, w2) \<Rightarrow> (Inr (plan, ''ERROR: '' @ exn_str e), w2))"
    and "copy_one w plan True = (Inr (plan, ''dry-run (would copy)''), w1)"
  using assms by (simp_all add: copy_one_def)

lemma copy_one_same:
  assumes "ensure_dir w (path_parent (dest plan)) = (Inr (), w1)"
    and "is_same_file w1 (src plan) (dest plan) = Inr True"
  shows "copy_one w plan dry = (Inr (plan, ''skip (same size)''), w1)"
  using assms by (simp add: copy_one_def)

lemma copy_one_mkdir_raises:
  assumes "ensure_dir w (path_parent (dest plan)) = (Inl e, w1)"
  shows "copy_one w plan dry = (Inl e, w1)"
  using assms by (simp add: copy_one_def)

lemma copy_one_same_raises:
  assumes "ensure_dir w (path_parent (dest plan)) = (Inr (), w1)"
    and "is_same_file w1 (src plan) (dest plan) = Inl e"
  shows "copy_one w plan dry = (Inl e, w1)"
  using assms by (simp add: copy_one_def)

lemmas eval_fs_defs = copy_one_def ensure_dir_def path_mkdir_def is_same_file_def is_same_file_try_def
  path_exists_def path_is_file_def path_is_dir_def stat_size_def copy2_def node_at_def
  fault_at_def is_dir_def encodable_def
  path_parent_def path_name_def is_absolute_def joinpath_def dir_st_size_def Let_def

lemmas example_defs = plan_d1_def plan_nul_def w_fresh_def w_blocked_def w_copied_def
  w_vanish_def




section \<open>Well-formed file systems\<close>

lemma wf_parent_dir:
  assumes "wf_world w" "node_at w p \<noteq> None"
  shows "is_dir w (path_parent p)"
proof (cases "p = [] \<or> p = [''/'']")
  case True
  then show ?thesis by (auto simp: path_parent_def is_absolute_def is_dir_def node_at_def)
next
  case False
  with assms(2) obtain n where "map_of (fs w) p = Some n" by (auto simp: node_at_def)
  then have "(p, n) \<in> set (fs w)" by (rule map_of_SomeD)
  with assms(1) show ?thesis by (auto simp: wf_world_def list_all_iff)
qed

lemma is_dir_node: "is_dir w p \<longleftrightarrow> node_at w p = Some Dir"
  by (auto simp: is_dir_def split: option.splits node.splits)

lemma path_parent_snoc': "xs @ [x] \<noteq> [''/''] \<Longrightarrow> path_parent (xs @ [x]) = xs"
  by (cases xs) (auto simp: path_parent_def is_absolute_def)

lemma wf_ancestors_dir:
  "wf_world w \<Longrightarrow> node_at w p \<noteq> None \<Longrightarrow> q \<noteq> [] \<Longrightarrow> strict_prefix q p \<Longrightarrow>
   node_at w q = Some Dir"
proof (induction p arbitrary: q rule: rev_induct)
  case Nil
  then show ?case by simp
next
  case (snoc x xs)
  show ?case
  proof (cases "xs @ [x] = [''/'']")
    case True
    then have "xs = []" by (cases xs) auto
    with snoc.prems(3,4) show ?thesis by (cases q) (auto simp: strict_prefix_def)
  next
    case False
    from wf_parent_dir [OF snoc.prems(1,2)] path_parent_snoc' [OF False]
    have d: "node_at w xs = Some Dir" by (simp add: is_dir_node)
    from snoc.prems(4) have "prefix q xs" by (auto simp: strict_prefix_def prefix_snoc)
    then consider "q = xs" | "strict_prefix q xs" by (auto simp: strict_prefix_def)
    then show ?thesis
    proof cases
      case 1 with d show ?thesis by simp
    next
      case 2
      from snoc.IH [OF snoc.prems(1) _ snoc.prems(3) 2] d show ?thesis by simp
    qed
  qed
qed

lemma mkdir_walk_noop:
  "(\<And>q. strict_prefix pre q \<Longrightarrow> prefix q (pre @ cs) \<Longrightarrow> node_at w q = Some Dir) \<Longrightarrow>
   mkdir_walk w pre cs = (Inr (), w)"
proof (induction cs arbitrary: pre)
  case Nil
  then show ?case by simp
next
  case (Cons c cs)
  have "node_at w (pre @ [c]) = Some Dir"
    by (rule Cons.prems) (auto simp: strict_prefix_def)
  moreover have "mkdir_walk w (pre @ [c]) cs = (Inr (), w)"
  proof (rule Cons.IH)
    fix q assume a: "strict_prefix (pre @ [c]) q" "prefix q ((pre @ [c]) @ cs)"
    from a(1) have "strict_prefix pre q" by (auto simp: strict_prefix_def prefix_def)
    with a(2) show "node_at w q = Some Dir" by (intro Cons.prems) simp_all
  qed
  ultimately show ?case by simp
qed

lemma ensure_dir_noop:
  assumes "encodable p" and "\<And>q. q \<noteq> [] \<Longrightarrow> prefix q p \<Longrightarrow> node_at w q = Some Dir"
  shows "ensure_dir w p = (Inr (), w)"
proof -
  have "mkdir_walk w [] p = (Inr (), w)"
    by (rule mkdir_walk_noop) (auto intro: assms(2) simp: strict_prefix_def)
  with assms(1) show ?thesis by (simp add: ensure_dir_def path_mkdir_def)
qed

lemma encodable_parent: "encodable p \<Longrightarrow> encodable (path_parent p)"
  by (auto simp: encodable_def path_parent_def dest: in_set_butlastD)

lemma path_parent_prefix: "prefix (path_parent p) p"
  by (simp add: path_parent_def prefixeq_butlast)

lemma ensure_dir_parent_noop:
  assumes "wf_world w" "node_at w d \<noteq> None" and enc: "encodable d"
  shows "ensure_dir w (path_parent d) = (Inr (), w)"
proof (rule ensure_dir_noop)
  show "encodable (path_parent d)" using enc by (rule encodable_parent)
next
  fix q assume q: "q \<noteq> []" "prefix q (path_parent d)"
  show "node_at w q = Some Dir"
  proof (cases "q = path_parent d")
    case True
    with wf_parent_dir [OF assms(1,2)] show ?thesis by (simp add: is_dir_node)
  next
    case False
    with q(2) have "strict_prefix q (path_parent d)" by (simp add: strict_prefix_def)
    with path_parent_prefix [of d] have "strict_prefix q d"
      by (auto simp: strict_prefix_def dest: prefix_order.trans prefix_order.antisym)
    from wf_ancestors_dir [OF assms(1,2) q(1) this] show ?thesis .
  qed
qed

section \<open>The copy executor: claims C4, C2 and C3\<close>

lemma path_exists_True_node: "path_exists w p = Inr True \<Longrightarrow> node_at w p \<noteq> None"
  by (auto simp: path_exists_def split: option.splits if_splits)

text \<open>
  Claim C4. In a file system that is a tree, when the destination exists and \<^verbatim>\<open>stat\<close> gives
  the same size for the source and the destination, \<open>copy_one\<close> reports
  \<^verbatim>\<open>skip (same size)\<close> and leaves the world as it was, whatever the dry-run flag is: the
  check comes before the flag is read.
\<close>

theorem skip_when_same_size:
  assumes "wf_world w"
    and "path_exists w (dest plan) = Inr True"
    and "stat_size w (src plan) = Inr n"
    and "stat_size w (dest plan) = Inr n"
  shows "copy_one w plan dry = (Inr (plan, ''skip (same size)''), w)"
proof -
  from assms(2) have "node_at w (dest plan) \<noteq> None" by (rule path_exists_True_node)
  moreover from assms(2) have "encodable (dest plan)" by (rule path_exists_True_encodable)
  ultimately have e: "ensure_dir w (path_parent (dest plan)) = (Inr (), w)"
    using assms(1) by (intro ensure_dir_parent_noop)
  from is_same_file_sizes [OF assms(2,3,4)]
  have "is_same_file w (src plan) (dest plan) = Inr True" by simp
  with e show ?thesis by (rule copy_one_same)
qed

theorem skip_when_same_size_witness:
  "wf_world w_copied
   \<and> path_exists w_copied (dest plan_d1) = Inr True
   \<and> stat_size w_copied (src plan_d1) = Inr 3
   \<and> stat_size w_copied (dest plan_d1) = Inr 3
   \<and> copy_one w_copied plan_d1 False = (Inr (plan_d1, ''skip (same size)''), w_copied)
   \<and> copy_one w_copied plan_d1 True = (Inr (plan_d1, ''skip (same size)''), w_copied)
   \<and> node_at w_copied (dest plan_d1) = Some (File ''xyz'')"
proof -
  have a: "wf_world w_copied"
    by (simp add: wf_world_def example_defs eval_fs_defs)
  have b: "path_exists w_copied (dest plan_d1) = Inr True"
    by (simp add: example_defs eval_fs_defs)
  have c: "stat_size w_copied (src plan_d1) = Inr 3"
    by (simp add: example_defs eval_fs_defs)
  have d: "stat_size w_copied (dest plan_d1) = Inr 3"
    by (simp add: example_defs eval_fs_defs)
  have e: "node_at w_copied (dest plan_d1) = Some (File ''xyz'')"
    by (simp add: example_defs eval_fs_defs)
  from a b c d e skip_when_same_size [OF a b c d] show ?thesis by simp
qed

text \<open>
  Claim C2. A failure of the copy step is caught and reported as an \<^verbatim>\<open>ERROR\<close> outcome with
  the message of the exception (lemma \<open>copy_one_not_same\<close>). A failure of the directory step
  is not: in \<open>w_blocked\<close>, where the regular file \<^verbatim>\<open>/a\<close> stands in the way of the
  directory \<^verbatim>\<open>/a/images\<close>, the exception of \<^verbatim>\<open>mkdir\<close> leaves \<open>copy_one\<close>, with or without
  the dry-run flag, and no outcome is reported for the plan.
\<close>

theorem copy_one_raises_when_mkdir_fails:
  "copy_one w_blocked plan_d1 False = (Inl (OSError ''Not a directory''), w_blocked)
   \<and> copy_one w_blocked plan_d1 True = (Inl (OSError ''Not a directory''), w_blocked)"
  by (simp add: example_defs eval_fs_defs)

lemma node_at_roots: "node_at w [] = Some Dir" "node_at w [''/''] = Some Dir"
  by (simp_all add: node_at_def)

lemma node_at_update_dir:
  "node_at (w\<lparr>fs := AList.update q Dir (fs w)\<rparr>) p = (if p = q then Some Dir else node_at w p)"
  using node_at_roots [of w] by (auto simp: node_at_update)

lemma mkdir_walk_frame:
  "mkdir_walk w pre cs = (r, w') \<Longrightarrow>
   faults w' = faults w
   \<and> (\<forall>p. node_at w' p = node_at w p
          \<or> node_at w p = None \<and> node_at w' p = Some Dir
             \<and> strict_prefix pre p \<and> prefix p (pre @ cs))"
proof (induction cs arbitrary: w pre)
  case Nil
  then show ?case by simp
next
  case (Cons c cs)
  let ?p0 = "pre @ [c]"
  have sp: "strict_prefix pre p \<and> prefix p (pre @ c # cs)"
    if "strict_prefix ?p0 p \<and> prefix p (?p0 @ cs)" for p
    using that by (auto simp: strict_prefix_def prefix_def)
  show ?case
  proof (cases "node_at w ?p0")
    case None
    show ?thesis
    proof (cases "fault_at w SysMkdir ?p0")
      case (Some m)
      with None Cons.prems show ?thesis by (simp add: Let_def)
    next
      case fnone: None
      let ?w2 = "w\<lparr>fs := AList.update ?p0 Dir (fs w)\<rparr>"
      from None fnone Cons.prems have "mkdir_walk ?w2 ?p0 cs = (r, w')"
        by (simp add: Let_def)
      from Cons.IH [OF this]
      have f: "faults w' = faults w"
        and n: "\<And>p. node_at w' p = node_at ?w2 p
          \<or> node_at ?w2 p = None \<and> node_at w' p = Some Dir
             \<and> strict_prefix ?p0 p \<and> prefix p (?p0 @ cs)" by simp_all
      have n2: "node_at ?w2 p = (if p = ?p0 then Some Dir else node_at w p)" for p
        by (rule node_at_update_dir)
      have "node_at w' p = node_at w p
          \<or> node_at w p = None \<and> node_at w' p = Some Dir
             \<and> strict_prefix pre p \<and> prefix p (pre @ c # cs)" for p
      proof (cases "p = ?p0")
        case True
        with n [of p] n2 [of p] None show ?thesis by (auto simp: strict_prefix_def)
      next
        case False
        with n [of p] n2 [of p] sp [of p] show ?thesis by auto
      qed
      with f show ?thesis by blast
    qed
  next
    case (Some nd)
    show ?thesis
    proof (cases nd)
      case (File b)
      with Some Cons.prems show ?thesis by (simp add: Let_def)
    next
      case Fifo
      with Some Cons.prems show ?thesis by (simp add: Let_def)
    next
      case Dir
      with Some Cons.prems have "mkdir_walk w ?p0 cs = (r, w')" by (simp add: Let_def)
      from Cons.IH [OF this] sp show ?thesis by blast
    qed
  qed
qed

lemma ensure_dir_frame:
  assumes "ensure_dir w d = (r, w')"
  shows "faults w' = faults w"
    and "node_at w' p = node_at w p
          \<or> node_at w p = None \<and> node_at w' p = Some Dir \<and> p \<noteq> [] \<and> prefix p d"
  using mkdir_walk_frame [of w "[]" d r w'] assms
  by (auto simp: ensure_dir_def path_mkdir_def split: if_splits)

lemma copy_one_dry_world:
  "snd (copy_one w plan True) = snd (ensure_dir w (path_parent (dest plan)))"
  by (cases "ensure_dir w (path_parent (dest plan))")
     (auto simp: copy_one_def split: sum.splits)

text \<open>
  Claim C3, as amended. With the dry-run flag set, executing a plan creates, overwrites and
  removes no file: the world afterwards is the one \<open>ensure_dir\<close> leaves, every regular file
  is where it was with the bytes it had, and the only new entries are directories on the way
  to the destination directory. When the directory step succeeded and the skip rule does not
  apply, the outcome is \<^verbatim>\<open>dry-run (would copy)\<close>.
\<close>

theorem dry_run_writes_no_file:
  assumes "copy_one w plan True = (r, w')"
  shows "w' = snd (ensure_dir w (path_parent (dest plan)))
    \<and> faults w' = faults w
    \<and> (\<forall>p c. node_at w' p = Some (File c) \<longleftrightarrow> node_at w p = Some (File c))
    \<and> (\<forall>p. node_at w' p \<noteq> node_at w p \<longrightarrow>
          node_at w p = None \<and> node_at w' p = Some Dir
          \<and> p \<noteq> [] \<and> prefix p (path_parent (dest plan)))
    \<and> (fst (ensure_dir w (path_parent (dest plan))) = Inr ()
         \<and> is_same_file w' (src plan) (dest plan) = Inr False
        \<longrightarrow> r = Inr (plan, ''dry-run (would copy)''))"
proof -
  let ?d = "path_parent (dest plan)"
  obtain r0 where e: "ensure_dir w ?d = (r0, w')"
    using copy_one_dry_world [of w plan] assms by (cases "ensure_dir w ?d") simp
  note fr = ensure_dir_frame [OF e]
  have 1: "w' = snd (ensure_dir w ?d)" using e by simp
  have 3: "node_at w' p = Some (File c) \<longleftrightarrow> node_at w p = Some (File c)" for p c
    using fr(2) [of p] by auto
  have 4: "node_at w' p \<noteq> node_at w p \<longrightarrow>
          node_at w p = None \<and> node_at w' p = Some Dir \<and> p \<noteq> [] \<and> prefix p ?d" for p
    using fr(2) [of p] by auto
  have 5: "fst (ensure_dir w ?d) = Inr () \<and> is_same_file w' (src plan) (dest plan) = Inr False
        \<longrightarrow> r = Inr (plan, ''dry-run (would copy)'')"
  proof
    assume a: "fst (ensure_dir w ?d) = Inr () \<and> is_same_file w' (src plan) (dest plan) = Inr False"
    with e have "ensure_dir w ?d = (Inr (), w')" by simp
    from copy_one_not_same(2) [OF this] a assms
    show "r = Inr (plan, ''dry-run (would copy)'')" by simp
  qed
  from 1 fr(1) 3 4 5 show ?thesis by blast
qed

theorem dry_run_writes_no_file_witness:
  "copy_one w_fresh plan_d1 True =
     (Inr (plan_d1, ''dry-run (would copy)''),
      w_fresh\<lparr>fs := fs w_fresh @ [([''/'', ''a''], Dir), ([''/'', ''a'', ''images''], Dir)]\<rparr>)
   \<and> fst (ensure_dir w_fresh (path_parent (dest plan_d1))) = Inr ()
   \<and> node_at (snd (copy_one w_fresh plan_d1 True)) [''/'', ''a'', ''images'']
       \<noteq> node_at w_fresh [''/'', ''a'', ''images'']
   \<and> prefix [''/'', ''a'', ''images''] (path_parent (dest plan_d1))
   \<and> node_at (snd (copy_one w_fresh plan_d1 True)) (src plan_d1) = Some (File ''abc'')
   \<and> node_at (snd (copy_one w_fresh plan_d1 True)) (dest plan_d1) = None"
proof -
  have c: "copy_one w_fresh plan_d1 True =
     (Inr (plan_d1, ''dry-run (would copy)''),
      w_fresh\<lparr>fs := fs w_fresh @ [([''/'', ''a''], Dir), ([''/'', ''a'', ''images''], Dir)]\<rparr>)"
    by (simp add: example_defs eval_fs_defs)
  from dry_run_writes_no_file [OF c] show ?thesis
    unfolding c by (simp add: example_defs eval_fs_defs)
qed

text \<open>
  Claim C3 as stated fails: a dry run on \<open>w_fresh\<close> creates the destination directory
  \<^verbatim>\<open>/a/images\<close>, which did not exist, and reports \<^verbatim>\<open>dry-run (would copy)\<close>.
\<close>

theorem dry_run_creates_directory_counterexample:
  "\<not> is_dir w_fresh [''/'', ''a'', ''images'']
   \<and> is_dir (snd (copy_one w_fresh plan_d1 True)) [''/'', ''a'', ''images'']
   \<and> snd (copy_one w_fresh plan_d1 True) \<noteq> w_fresh
   \<and> fst (copy_one w_fresh plan_d1 True) = Inr (plan_d1, ''dry-run (would copy)'')"
  by (simp add: example_defs eval_fs_defs)

section \<open>Discovery: claim C7\<close>

lemma exts_disjoint: "x \<in> IMAGE_EXTS \<Longrightarrow> x \<notin> MODEL_EXTS"
  by (auto simp: IMAGE_EXTS_def MODEL_EXTS_def)

lemma discover_loop_eq:
  assumes "\<forall>p \<in> set es. \<not> isl (path_is_file w p)"
  shows "discover_loop w images models es =
     Inr (images @ filter (is_image_file w) es, models @ filter (is_model_file w) es)"
  using assms
proof (induction es arbitrary: images models)
  case Nil
  then show ?case by simp
next
  case (Cons p ps)
  then obtain f where f: "path_is_file w p = Inr f" by (cases "path_is_file w p") auto
  from Cons.prems have "\<forall>p \<in> set ps. \<not> isl (path_is_file w p)" by simp
  note ih = Cons.IH [OF this]
  show ?case
    using exts_disjoint [of "lower (path_suffix p)"]
    by (simp add: ih f is_image_file_def is_model_file_def Let_def)
qed

lemma discover_loop_raises:
  assumes "\<forall>p \<in> set es1. \<not> isl (path_is_file w p)" and "path_is_file w q = Inl e"
  shows "discover_loop w images models (es1 @ q # es2) = Inl e"
  using assms(1)
proof (induction es1 arbitrary: images models)
  case Nil
  show ?case using assms(2) by simp
next
  case (Cons p ps)
  then obtain f where f: "path_is_file w p = Inr f" by (cases "path_is_file w p") auto
  from Cons.prems have "\<forall>p \<in> set ps. \<not> isl (path_is_file w p)" by simp
  note ih = Cons.IH [OF this]
  show ?case by (simp add: ih f Let_def)
qed

lemma iterdir_entries:
  assumes "iterdir w d = Inr es"
  shows "es = filter (is_child d) (map fst (fs w))" and "is_dir w d"
  using assms by (auto simp: iterdir_def is_dir_def split: option.splits node.splits if_splits)

lemma key_node_at:
  assumes "p \<in> fst ` set (fs w)"
  shows "node_at w p \<noteq> None"
proof -
  from assms have "map_of (fs w) p \<noteq> None" by (simp add: map_of_eq_None_iff)
  then show ?thesis by (simp add: node_at_def)
qed

lemma path_is_file_True:
  "path_is_file w p = Inr True \<longleftrightarrow>
     encodable p \<and> fault_at w SysIsFile p = None \<and> (\<exists>c. node_at w p = Some (File c))"
  by (auto simp: path_is_file_def split: option.splits node.splits)

text \<open>
  Claim C7. \<open>discover_files\<close> raises what listing the directory raises, and what the first
  failing call of \<^verbatim>\<open>is_file\<close> on an entry raises; when the listing and every call of
  \<^verbatim>\<open>is_file\<close> succeed, it returns the entries of the listing that are image files and those
  that are model files, each in the order of the listing. The listing holds exactly the
  direct entries of the directory, in the order of the file system. An entry is an image
  file when \<^verbatim>\<open>is_file\<close> holds for it and its lowercased extension is one of the four image
  extensions, a model file when \<^verbatim>\<open>is_file\<close> holds for it and its lowercased extension is
  \<^verbatim>\<open>.glb\<close>; \<^verbatim>\<open>is_file\<close> holds for regular files only, so a sub-directory and a named
  pipe are in neither list.
\<close>

theorem discover_files_direct_entries:
  "(iterdir w d = Inl e \<longrightarrow> discover_files w d = Inl e)
   \<and> (iterdir w d = Inr (es1 @ q # es2) \<and> (\<forall>p \<in> set es1. \<not> isl (path_is_file w p))
        \<and> path_is_file w q = Inl e' \<longrightarrow>
      discover_files w d = Inl e')
   \<and> (iterdir w d = Inr es \<and> (\<forall>p \<in> set es. \<not> isl (path_is_file w p)) \<longrightarrow>
      discover_files w d = Inr (filter (is_image_file w) es, filter (is_model_file w) es))
   \<and> (iterdir w d = Inr es \<longrightarrow>
        is_dir w d
        \<and> es = filter (\<lambda>p. path_parent p = d \<and> p \<noteq> d) (map fst (fs w))
        \<and> set es = {p. p \<in> fst ` set (fs w) \<and> path_parent p = d \<and> p \<noteq> d}
        \<and> (\<forall>p \<in> set es. node_at w p \<noteq> None)
        \<and> (\<forall>p \<in> set es. is_image_file w p \<longleftrightarrow>
              path_is_file w p = Inr True
              \<and> lower (path_suffix p) \<in> {''.png'', ''.jpg'', ''.jpeg'', ''.webp''})
        \<and> (\<forall>p \<in> set es. is_model_file w p \<longleftrightarrow>
              path_is_file w p = Inr True \<and> lower (path_suffix p) = ''.glb'')
        \<and> (\<forall>p \<in> set es. path_is_file w p = Inr True \<longleftrightarrow>
              encodable p \<and> fault_at w SysIsFile p = None
              \<and> (\<exists>c. node_at w p = Some (File c)))
        \<and> (\<forall>p \<in> set es. node_at w p = Some Dir \<or> node_at w p = Some Fifo \<longrightarrow>
              \<not> is_image_file w p \<and> \<not> is_model_file w p))"
proof -
  have 1: "iterdir w d = Inl e \<longrightarrow> discover_files w d = Inl e"
    by (simp add: discover_files_def)
  have 2: "iterdir w d = Inr (es1 @ q # es2) \<and> (\<forall>p \<in> set es1. \<not> isl (path_is_file w p))
        \<and> path_is_file w q = Inl e' \<longrightarrow>
      discover_files w d = Inl e'"
    by (auto simp: discover_files_def discover_loop_raises)
  have 3: "iterdir w d = Inr es \<and> (\<forall>p \<in> set es. \<not> isl (path_is_file w p)) \<longrightarrow>
      discover_files w d = Inr (filter (is_image_file w) es, filter (is_model_file w) es)"
    by (auto simp: discover_files_def discover_loop_eq)
  have 4: "is_dir w d
        \<and> es = filter (\<lambda>p. path_parent p = d \<and> p \<noteq> d) (map fst (fs w))
        \<and> set es = {p. p \<in> fst ` set (fs w) \<and> path_parent p = d \<and> p \<noteq> d}
        \<and> (\<forall>p \<in> set es. node_at w p \<noteq> None)" if "iterdir w d = Inr es"
  proof -
    note en = iterdir_entries [OF that]
    have c: "is_child d = (\<lambda>p. path_parent p = d \<and> p \<noteq> d)"
      by (auto simp: is_child_def fun_eq_iff)
    have l: "es = filter (\<lambda>p. path_parent p = d \<and> p \<noteq> d) (map fst (fs w))"
      using en(1) unfolding c .
    have "set es = {p. p \<in> fst ` set (fs w) \<and> path_parent p = d \<and> p \<noteq> d}"
      unfolding l by auto
    moreover from this have "\<forall>p \<in> set es. node_at w p \<noteq> None"
      using key_node_at [of _ w] by blast
    ultimately show ?thesis using en(2) l by blast
  qed
  have 5: "is_image_file w p \<longleftrightarrow>
      path_is_file w p = Inr True
      \<and> lower (path_suffix p) \<in> {''.png'', ''.jpg'', ''.jpeg'', ''.webp''}" for p
    by (simp add: is_image_file_def IMAGE_EXTS_def)
  have 6: "is_model_file w p \<longleftrightarrow>
      path_is_file w p = Inr True \<and> lower (path_suffix p) = ''.glb''" for p
    by (simp add: is_model_file_def MODEL_EXTS_def)
  have 7: "node_at w p = Some Dir \<or> node_at w p = Some Fifo \<longrightarrow>
      \<not> is_image_file w p \<and> \<not> is_model_file w p" for p
    by (auto simp: is_image_file_def is_model_file_def path_is_file_True)
  have 8: "iterdir w d = Inr es \<longrightarrow>
        is_dir w d
        \<and> es = filter (\<lambda>p. path_parent p = d \<and> p \<noteq> d) (map fst (fs w))
        \<and> set es = {p. p \<in> fst ` set (fs w) \<and> path_parent p = d \<and> p \<noteq> d}
        \<and> (\<forall>p \<in> set es. node_at w p \<noteq> None)
        \<and> (\<forall>p \<in> set es. is_image_file w p \<longleftrightarrow>
              path_is_file w p = Inr True
              \<and> lower (path_suffix p) \<in> {''.png'', ''.jpg'', ''.jpeg'', ''.webp''})
        \<and> (\<forall>p \<in> set es. is_model_file w p \<longleftrightarrow>
              path_is_file w p = Inr True \<and> lower (path_suffix p) = ''.glb'')
        \<and> (\<forall>p \<in> set es. path_is_file w p = Inr True \<longleftrightarrow>
              encodable p \<and> fault_at w SysIsFile p = None
              \<and> (\<exists>c. node_at w p = Some (File c)))
        \<and> (\<forall>p \<in> set es. node_at w p = Some Dir \<or> node_at w p = Some Fifo \<longrightarrow>
              \<not> is_image_file w p \<and> \<not> is_model_file w p)"
  proof
    assume a: "iterdir w d = Inr es"
    note b = 4 [OF a]
    have a1: "is_dir w d" using b by (rule conjunct1)
    have a2: "es = filter (\<lambda>p. path_parent p = d \<and> p \<noteq> d) (map fst (fs w))"
      using b by (elim conjE)
    have a3: "set es = {p. p \<in> fst ` set (fs w) \<and> path_parent p = d \<and> p \<noteq> d}"
      using b by (elim conjE)
    have a4: "\<forall>p \<in> set es. node_at w p \<noteq> None"
      using b by (elim conjE)
    have a5: "\<forall>p \<in> set es. is_image_file w p \<longleftrightarrow>
              path_is_file w p = Inr True
              \<and> lower (path_suffix p) \<in> {''.png'', ''.jpg'', ''.jpeg'', ''.webp''}"
      by (intro ballI) (rule 5)
    have a6: "\<forall>p \<in> set es. is_model_file w p \<longleftrightarrow>
              path_is_file w p = Inr True \<and> lower (path_suffix p) = ''.glb''"
      by (intro ballI) (rule 6)
    have a7: "\<forall>p \<in> set es. path_is_file w p = Inr True \<longleftrightarrow>
              encodable p \<and> fault_at w SysIsFile p = None
              \<and> (\<exists>c. node_at w p = Some (File c))"
      by (intro ballI) (rule path_is_file_True)
    have a8: "\<forall>p \<in> set es. node_at w p = Some Dir \<or> node_at w p = Some Fifo \<longrightarrow>
              \<not> is_image_file w p \<and> \<not> is_model_file w p"
      by (intro ballI) (rule 7)
    show "is_dir w d
        \<and> es = filter (\<lambda>p. path_parent p = d \<and> p \<noteq> d) (map fst (fs w))
        \<and> set es = {p. p \<in> fst ` set (fs w) \<and> path_parent p = d \<and> p \<noteq> d}
        \<and> (\<forall>p \<in> set es. node_at w p \<noteq> None)
        \<and> (\<forall>p \<in> set es. is_image_file w p \<longleftrightarrow>
              path_is_file w p = Inr True
              \<and> lower (path_suffix p) \<in> {''.png'', ''.jpg'', ''.jpeg'', ''.webp''})
        \<and> (\<forall>p \<in> set es. is_model_file w p \<longleftrightarrow>
              path_is_file w p = Inr True \<and> lower (path_suffix p) = ''.glb'')
        \<and> (\<forall>p \<in> set es. path_is_file w p = Inr True \<longleftrightarrow>
              encodable p \<and> fault_at w SysIsFile p = None
              \<and> (\<exists>c. node_at w p = Some (File c)))
        \<and> (\<forall>p \<in> set es. node_at w p = Some Dir \<or> node_at w p = Some Fifo \<longrightarrow>
              \<not> is_image_file w p \<and> \<not> is_model_file w p)"
      using a1 a2 a3 a4 a5 a6 a7 a8 by (simp only: simp_thms)
  qed
  show ?thesis
    by (intro conjI) (rule 1 2 3 8)+
qed

lemmas more_example_defs = w_mixed_def w_denied_def w_unreadable_def w_clash_def
  args_example_def

theorem discover_files_direct_entries_witness:
  "iterdir w_mixed [''/'', ''s''] =
     Inr [[''/'', ''s'', ''d1.png''], [''/'', ''s'', ''sub''], [''/'', ''s'', ''H5.GLB''],
          [''/'', ''s'', ''notes.txt''], [''/'', ''s'', ''x.png''], [''/'', ''s'', ''pipe.png'']]
   \<and> discover_files w_mixed [''/'', ''s''] =
     Inr ([[''/'', ''s'', ''d1.png'']], [[''/'', ''s'', ''H5.GLB'']])
   \<and> node_at w_mixed [''/'', ''s'', ''x.png''] = Some Dir
   \<and> \<not> is_image_file w_mixed [''/'', ''s'', ''x.png'']
   \<and> node_at w_mixed [''/'', ''s'', ''pipe.png''] = Some Fifo
   \<and> \<not> is_image_file w_mixed [''/'', ''s'', ''pipe.png'']
   \<and> path_is_file w_mixed [''/'', ''s'', ''sub'', ''c2.png''] = Inr True
   \<and> path_is_file w_denied [''/'', ''s'', ''H5.GLB''] = Inl (OSError ''Permission denied'')
   \<and> discover_files w_denied [''/'', ''s''] = Inl (OSError ''Permission denied'')
   \<and> iterdir w_fresh [''/'', ''s'', ''d1.png''] = Inl (OSError ''Not a directory'')
   \<and> discover_files w_fresh [''/'', ''s'', ''d1.png''] = Inl (OSError ''Not a directory'')"
proof -
  let ?es1 = "[[''/'', ''s'', ''d1.png''], [''/'', ''s'', ''sub'']]"
  let ?q = "[''/'', ''s'', ''H5.GLB'']"
  let ?es2 = "[[''/'', ''s'', ''notes.txt''], [''/'', ''s'', ''x.png''],
          [''/'', ''s'', ''pipe.png'']]"
  let ?es = "?es1 @ ?q # ?es2"
  have i: "iterdir w_mixed [''/'', ''s''] = Inr ?es"
    by (simp add: iterdir_def is_child_def more_example_defs eval_fs_defs)
  have i': "iterdir w_denied [''/'', ''s''] = Inr (?es1 @ ?q # ?es2)"
    by (simp add: iterdir_def is_child_def more_example_defs eval_fs_defs)
  have i'': "iterdir w_fresh [''/'', ''s'', ''d1.png''] = Inl (OSError ''Not a directory'')"
    by (simp add: iterdir_def example_defs eval_fs_defs)
  have ok: "\<forall>p \<in> set ?es. \<not> isl (path_is_file w_mixed p)"
    by (simp add: more_example_defs eval_fs_defs)
  have ok': "\<forall>p \<in> set ?es1. \<not> isl (path_is_file w_denied p)"
    by (simp add: more_example_defs eval_fs_defs)
  have q: "path_is_file w_denied ?q = Inl (OSError ''Permission denied'')"
    by (simp add: more_example_defs eval_fs_defs)
  have d: "node_at w_mixed [''/'', ''s'', ''x.png''] = Some Dir"
    and pp: "node_at w_mixed [''/'', ''s'', ''pipe.png''] = Some Fifo"
    and f: "path_is_file w_mixed [''/'', ''s'', ''sub'', ''c2.png''] = Inr True"
    by (simp_all add: more_example_defs eval_fs_defs)
  have img: "filter (is_image_file w_mixed) ?es = [[''/'', ''s'', ''d1.png'']]"
    by (simp add: is_image_file_def IMAGE_EXTS_def more_example_defs eval_fs_defs
        path_suffix_def name_suffix_def lower_def lower_char_def letter_defs)
  have mdl: "filter (is_model_file w_mixed) ?es = [[''/'', ''s'', ''H5.GLB'']]"
    by (simp add: is_model_file_def MODEL_EXTS_def more_example_defs eval_fs_defs
        path_suffix_def name_suffix_def lower_def lower_char_def letter_defs)
  note t = discover_files_direct_entries
    [where w = w_mixed and d = "[''/'', ''s'']" and es = ?es]
  note t' = discover_files_direct_entries
    [where w = w_denied and d = "[''/'', ''s'']" and ?es1.0 = ?es1 and q = ?q and ?es2.0 = ?es2
       and e' = "OSError ''Permission denied''"]
  note t'' = discover_files_direct_entries
    [where w = w_fresh and d = "[''/'', ''s'', ''d1.png'']" and e = "OSError ''Not a directory''"]
  from t i ok
  have 1: "discover_files w_mixed [''/'', ''s''] =
      Inr (filter (is_image_file w_mixed) ?es, filter (is_model_file w_mixed) ?es)"
    by blast
  from t i
  have "\<forall>p \<in> set ?es. node_at w_mixed p = Some Dir \<or> node_at w_mixed p = Some Fifo \<longrightarrow>
      \<not> is_image_file w_mixed p \<and> \<not> is_model_file w_mixed p"
    by blast
  moreover have "[''/'', ''s'', ''x.png''] \<in> set ?es" "[''/'', ''s'', ''pipe.png''] \<in> set ?es"
    by simp_all
  ultimately have 2: "\<not> is_image_file w_mixed [''/'', ''s'', ''x.png'']"
    and 3: "\<not> is_image_file w_mixed [''/'', ''s'', ''pipe.png'']"
    using d pp by blast+
  from t' i' ok' q
  have 4: "discover_files w_denied [''/'', ''s''] = Inl (OSError ''Permission denied'')"
    by blast
  from t'' i''
  have 5: "discover_files w_fresh [''/'', ''s'', ''d1.png''] = Inl (OSError ''Not a directory'')"
    by blast
  have i2: "iterdir w_mixed [''/'', ''s''] =
     Inr [[''/'', ''s'', ''d1.png''], [''/'', ''s'', ''sub''], [''/'', ''s'', ''H5.GLB''],
          [''/'', ''s'', ''notes.txt''], [''/'', ''s'', ''x.png''], [''/'', ''s'', ''pipe.png'']]"
    using i by simp
  note r = 1 [unfolded img mdl]
  show ?thesis
    by (intro conjI) (rule i2 r d 2 pp 3 f q 4 i'' 5)+
qed

end
